theory Spec2Isabelle
  imports Complex_Main "HOL-Library.Sublist"
begin

section \<open>The terminal image encoders of \<open>endcord_cython/media.pyx\<close>\<close>

text \<open>
  The file \<open>src/endcord_cython/media.pyx\<close> holds two functions, \<open>img_to_term\<close> (one glyph of
  an ASCII ramp per pixel, coloured by a foreground escape) and \<open>img_to_term_block\<close> (one
  upper-half-block per pair of pixels, coloured by a foreground and a background escape).
  Both build a list \<open>out_lines\<close> of text lines and return it joined by newlines.

  The embedding follows the source statement by statement:
  \<^item> a Python \<open>str\<close> is a list of Unicode code points (\<open>ustring\<close>), so that the half-block
    glyph is one character as it is in Python;
  \<^item> the variables declared \<open>int\<close> are C integers of 32 bits and are mathematical integers
    (\<open>int\<close>) here; the arithmetic of the source on them is subtraction, addition, floor
    division by the literals 2 and 255 (\<open>div\<close> rounds down, as \<open>//\<close> does), and one product,
    \<open>gray_val * ascii_palette_len\<close>. The product is the one operation that leaves the 32-bit
    range on values of the data model (a luminance up to 255 and a large ramp length), so it
    is taken with the wrap-around of the C integers written out (\<open>c_int\<close>);
  \<^item> the object returned by \<open>img.load()\<close> is a grid of integers read by \<open>pixels[x, y]\<close>; it is
    a list of rows here, and a read outside the grid is the error \<open>IndexError\<close>;
  \<^item> the file is compiled with \<open>boundscheck=False, wraparound=False\<close>, so the read
    \<open>ascii_palette[i]\<close> of the typed list is unchecked: no test stands between the index and
    the read, and outside \<open>0 \<le> i < len\<close> the read takes whatever lies beside the items of the
    list. What lies there is a parameter of the model (\<open>beyond\<close>): the read may yield a text,
    with which the call goes on, or end the call (\<open>RampOutOfRange\<close>);
  \<^item> every \<open>for\<close> loop is a recursion over the list its \<open>range\<close> produces, the \<open>while\<close> loop
    is a recursive function with a termination proof, and the fragments appended to
    \<open>line_parts\<close> are kept as a list that is joined at the end of the row, as in the source.
\<close>

subsection \<open>Python strings and built-ins\<close>

type_synonym ustring = "nat list"

definition ascii :: "string \<Rightarrow> ustring" where
  "ascii s = map of_char s"

text \<open>\<open>s * n\<close> on a string: the empty string when \<open>n \<le> 0\<close>.\<close>

definition py_repeat :: "ustring \<Rightarrow> int \<Rightarrow> ustring" where
  "py_repeat s n = concat (replicate (nat n) s)"

text \<open>\<open>sep.join(parts)\<close>.\<close>

fun py_join :: "ustring \<Rightarrow> ustring list \<Rightarrow> ustring" where
  "py_join sep [] = []"
| "py_join sep [p] = p"
| "py_join sep (p # q # ps) = p @ sep @ py_join sep (q # ps)"

text \<open>\<open>str(n)\<close> for an integer: decimal digits, with a minus sign for a negative number.\<close>

function digits :: "nat \<Rightarrow> ustring" where
  "digits n = (if n < 10 then [48 + n] else digits (n div 10) @ [48 + n mod 10])"
  by pat_completeness auto
termination
  by (relation "measure (\<lambda>n. n)") auto

definition str_int :: "int \<Rightarrow> ustring" where
  "str_int i = (if i < 0 then 45 # digits (nat (- i)) else digits (nat i))"

text \<open>\<open>range(n)\<close> and \<open>range(start, stop, step)\<close>; the source only uses a positive step.\<close>

definition py_range :: "int \<Rightarrow> int list" where
  "py_range n = map int [0 ..< nat n]"

function range_step :: "int \<Rightarrow> int \<Rightarrow> int \<Rightarrow> int list" where
  "range_step start stop step =
     (if 0 < step \<and> start < stop then start # range_step (start + step) stop step else [])"
  by pat_completeness auto
termination
  by (relation "measure (\<lambda>(start, stop, step). nat (stop - start))") auto

subsection \<open>Errors, pixel reads and the read of the glyph ramp\<close>

datatype error = IndexError | RampOutOfRange

text \<open>
  An image is the list of its rows; \<open>pixels[x, y]\<close> reads column \<open>x\<close> of row \<open>y\<close> and fails
  outside the grid.
\<close>

type_synonym image = "int list list"

definition pixel_at :: "image \<Rightarrow> int \<Rightarrow> int \<Rightarrow> error + int" where
  "pixel_at pixels x y =
     (if 0 \<le> y \<and> y < int (length pixels) \<and> 0 \<le> x \<and> x < int (length (pixels ! nat y))
      then Inr (pixels ! nat y ! nat x) else Inl IndexError)"

text \<open>
  The variables declared \<open>int\<close> are C integers of 32 bits. \<open>c_int\<close> is the value that such a
  variable holds for a mathematical result: the result itself inside the range, and the
  result wrapped around outside of it, as the compiled product of line 50 does.
\<close>

definition c_int :: "int \<Rightarrow> int" where
  "c_int i = (i + 2147483648) mod 4294967296 - 2147483648"

text \<open>
  \<open>ascii_palette[i]\<close> under \<open>boundscheck=False, wraparound=False\<close> is an unchecked read of the
  items of the list: a negative index does not count from the end, and no test precedes the
  read. Inside the list the read yields the item. Outside the list it reads the memory beside
  the items, and what stands there is not determined by the program: it is the parameter
  \<open>beyond\<close> of the model, with \<open>beyond i = Some glyph\<close> when the read at index \<open>i\<close> yields the
  text \<open>glyph\<close> and the call goes on with it, and \<open>beyond i = None\<close> when it yields nothing that
  can be joined into the line and the call ends there. A list without items has no item
  storage, and reading it ends the call.
\<close>

type_synonym memory = "int \<Rightarrow> ustring option"

definition ramp_at :: "memory \<Rightarrow> ustring list \<Rightarrow> int \<Rightarrow> error + ustring" where
  "ramp_at beyond ascii_palette i =
     (if 0 \<le> i \<and> i < int (length ascii_palette) then Inr (ascii_palette ! nat i)
      else if ascii_palette = [] then Inl RampOutOfRange
      else (case beyond i of None \<Rightarrow> Inl RampOutOfRange | Some glyph \<Rightarrow> Inr glyph))"

text \<open>
  The index expression of line 50, \<open>(gray_val * ascii_palette_len) // 255\<close>: the product of two
  C integers, then the floor division by the literal.
\<close>

definition ramp_index :: "int \<Rightarrow> int \<Rightarrow> int" where
  "ramp_index gray_val ascii_palette_len = c_int (gray_val * ascii_palette_len) div 255"

subsection \<open>The fragments shared by both functions\<close>

definition ESC :: ustring where
  "ESC = [27]"

definition RESET :: ustring where
  "RESET = ESC @ ascii ''[0m''"

definition bg :: "int \<Rightarrow> ustring" where
  "bg bg_color = ESC @ ascii ''[48;5;'' @ str_int bg_color @ ascii ''m''"

text \<open>The line appended by the top and bottom padding loops: \<open>bg + " " * screen_width + RESET\<close>.\<close>

definition padding_line :: "int \<Rightarrow> int \<Rightarrow> ustring" where
  "padding_line bg_color screen_width = bg bg_color @ py_repeat (ascii '' '') screen_width @ RESET"

text \<open>The bottom padding loop, \<open>while len(out_lines) < screen_height: out_lines.append(...)\<close>.\<close>

function bottom_padding :: "ustring \<Rightarrow> int \<Rightarrow> ustring list \<Rightarrow> ustring list" where
  "bottom_padding line screen_height out_lines =
     (if int (length out_lines) < screen_height
      then bottom_padding line screen_height (out_lines @ [line]) else out_lines)"
  by pat_completeness auto
termination
  by (relation "measure (\<lambda>(line, screen_height, out_lines). nat (screen_height - int (length out_lines)))")
     auto

subsection \<open>\<open>img_to_term\<close>: the glyph encoder\<close>

text \<open>
  The loop over the columns (lines 41 to 50). Its state is \<open>line_parts\<close> and \<open>current_fg\<close>;
  the luminance is read first, then the colour, and the glyph is looked up last.
\<close>

fun img_to_term_cells ::
  "memory \<Rightarrow> image \<Rightarrow> image \<Rightarrow> ustring list \<Rightarrow> int \<Rightarrow> int \<Rightarrow> int list \<Rightarrow> ustring list \<times> int
     \<Rightarrow> error + (ustring list \<times> int)" where
  "img_to_term_cells beyond pixels pixels_gray ascii_palette ascii_palette_len y [] st = Inr st"
| "img_to_term_cells beyond pixels pixels_gray ascii_palette ascii_palette_len y (x # xs)
     (line_parts, current_fg) =
     (case pixel_at pixels_gray x y of
        Inl e \<Rightarrow> Inl e
      | Inr gray_val \<Rightarrow>
          (case pixel_at pixels x y of
             Inl e \<Rightarrow> Inl e
           | Inr p \<Rightarrow>
               (let color = p + 16;
                    st = (if color \<noteq> current_fg
                          then (line_parts @ [ESC, ascii ''[38;5;'', str_int color, ascii ''m''],
                                color)
                          else (line_parts, current_fg))
                in case ramp_at beyond ascii_palette (ramp_index gray_val ascii_palette_len) of
                     Inl e \<Rightarrow> Inl e
                   | Inr glyph \<Rightarrow>
                       img_to_term_cells beyond pixels pixels_gray ascii_palette ascii_palette_len y xs
                         (fst st @ [glyph], snd st))))"

text \<open>The body of the loop over the image rows (lines 33 to 59): one joined line.\<close>

definition img_to_term_row ::
  "memory \<Rightarrow> image \<Rightarrow> image \<Rightarrow> int \<Rightarrow> ustring list \<Rightarrow> int \<Rightarrow> int \<Rightarrow> int \<Rightarrow> int \<Rightarrow> int
     \<Rightarrow> error + ustring" where
  "img_to_term_row beyond pixels pixels_gray bg_color ascii_palette ascii_palette_len screen_width
     img_width padding_w y =
     (let line_parts = (if padding_w > 0 then [bg bg_color, py_repeat (ascii '' '') padding_w]
                        else [])
      in case img_to_term_cells beyond pixels pixels_gray ascii_palette ascii_palette_len y
                (py_range img_width) (line_parts, - 1) of
           Inl e \<Rightarrow> Inl e
         | Inr (line_parts, current_fg) \<Rightarrow>
             (let visible_len = padding_w + img_width;
                  line_parts =
                    (if visible_len < screen_width
                     then line_parts @
                          [bg bg_color, py_repeat (ascii '' '') (screen_width - visible_len)]
                     else line_parts)
              in Inr (py_join [] (line_parts @ [RESET]))))"

text \<open>The loop over the image rows: each row is appended to \<open>out_lines\<close>.\<close>

fun img_to_term_rows ::
  "memory \<Rightarrow> image \<Rightarrow> image \<Rightarrow> int \<Rightarrow> ustring list \<Rightarrow> int \<Rightarrow> int \<Rightarrow> int \<Rightarrow> int \<Rightarrow> int list
     \<Rightarrow> ustring list \<Rightarrow> error + ustring list" where
  "img_to_term_rows beyond pixels pixels_gray bg_color ascii_palette ascii_palette_len screen_width
     img_width padding_w [] out_lines = Inr out_lines"
| "img_to_term_rows beyond pixels pixels_gray bg_color ascii_palette ascii_palette_len screen_width
     img_width padding_w (y # ys) out_lines =
     (case img_to_term_row beyond pixels pixels_gray bg_color ascii_palette ascii_palette_len
             screen_width img_width padding_w y of
        Inl e \<Rightarrow> Inl e
      | Inr line \<Rightarrow>
          img_to_term_rows beyond pixels pixels_gray bg_color ascii_palette ascii_palette_len
            screen_width img_width padding_w ys (out_lines @ [line]))"

text \<open>\<open>out_lines\<close> as it is when line 65 is reached.\<close>

definition img_to_term_lines ::
  "memory \<Rightarrow> image \<Rightarrow> image \<Rightarrow> int \<Rightarrow> ustring list \<Rightarrow> int \<Rightarrow> int \<Rightarrow> int \<Rightarrow> int \<Rightarrow> int
     \<Rightarrow> error + ustring list" where
  "img_to_term_lines beyond pixels pixels_gray bg_color ascii_palette ascii_palette_len screen_width
     screen_height img_width img_height =
     (let padding_h = (screen_height - img_height) div 2;
          padding_w = (screen_width - img_width) div 2;
          out_lines = map (\<lambda>y. padding_line bg_color screen_width) (py_range padding_h)
      in case img_to_term_rows beyond pixels pixels_gray bg_color ascii_palette ascii_palette_len
                screen_width img_width padding_w (py_range img_height) out_lines of
           Inl e \<Rightarrow> Inl e
         | Inr out_lines \<Rightarrow>
             Inr (bottom_padding (padding_line bg_color screen_width) screen_height out_lines))"


subsection \<open>\<open>img_to_term_block\<close>: the half-block encoder\<close>

text \<open>The half-block glyph, U+2580.\<close>

definition half_block :: ustring where
  "half_block = [9600]"

text \<open>
  The loop over the columns (lines 103 to 118), with the two trackers \<open>current_fg\<close> and
  \<open>current_bg\<close>; the pixel of row \<open>y\<close> is read before the pixel of row \<open>y + 1\<close>.
\<close>

fun img_to_term_block_cells ::
  "image \<Rightarrow> int \<Rightarrow> int list \<Rightarrow> ustring list \<times> int \<times> int
     \<Rightarrow> error + (ustring list \<times> int \<times> int)" where
  "img_to_term_block_cells pixels y [] st = Inr st"
| "img_to_term_block_cells pixels y (x # xs) (line_parts, current_fg, current_bg) =
     (case pixel_at pixels x y of
        Inl e \<Rightarrow> Inl e
      | Inr p_top \<Rightarrow>
          (case pixel_at pixels x (y + 1) of
             Inl e \<Rightarrow> Inl e
           | Inr p_bot \<Rightarrow>
               (let top_color = p_top + 16;
                    bot_color = p_bot + 16;
                    st1 = (if top_color \<noteq> current_fg
                           then (line_parts @
                                 [ESC, ascii ''[38;5;'', str_int top_color, ascii ''m''],
                                 top_color)
                           else (line_parts, current_fg));
                    st2 = (if bot_color \<noteq> current_bg
                           then (fst st1 @
                                 [ESC, ascii ''[48;5;'', str_int bot_color, ascii ''m''],
                                 bot_color)
                           else (fst st1, current_bg))
                in img_to_term_block_cells pixels y xs
                     (fst st2 @ [half_block], snd st1, snd st2))))"

definition img_to_term_block_row ::
  "image \<Rightarrow> int \<Rightarrow> int \<Rightarrow> int \<Rightarrow> int \<Rightarrow> int \<Rightarrow> error + ustring" where
  "img_to_term_block_row pixels bg_color screen_width img_width padding_w y =
     (let line_parts = (if padding_w > 0 then [bg bg_color, py_repeat (ascii '' '') padding_w]
                        else [])
      in case img_to_term_block_cells pixels y (py_range img_width) (line_parts, - 1, - 1) of
           Inl e \<Rightarrow> Inl e
         | Inr (line_parts, current_fg, current_bg) \<Rightarrow>
             (let visible_len = padding_w + img_width;
                  line_parts =
                    (if visible_len < screen_width
                     then line_parts @
                          [bg bg_color, py_repeat (ascii '' '') (screen_width - visible_len)]
                     else line_parts)
              in Inr (py_join [] (line_parts @ [RESET]))))"

fun img_to_term_block_rows ::
  "image \<Rightarrow> int \<Rightarrow> int \<Rightarrow> int \<Rightarrow> int \<Rightarrow> int list \<Rightarrow> ustring list
     \<Rightarrow> error + ustring list" where
  "img_to_term_block_rows pixels bg_color screen_width img_width padding_w [] out_lines =
     Inr out_lines"
| "img_to_term_block_rows pixels bg_color screen_width img_width padding_w (y # ys) out_lines =
     (case img_to_term_block_row pixels bg_color screen_width img_width padding_w y of
        Inl e \<Rightarrow> Inl e
      | Inr line \<Rightarrow>
          img_to_term_block_rows pixels bg_color screen_width img_width padding_w ys
            (out_lines @ [line]))"

definition img_to_term_block_lines ::
  "image \<Rightarrow> int \<Rightarrow> int \<Rightarrow> int \<Rightarrow> int \<Rightarrow> int \<Rightarrow> error + ustring list" where
  "img_to_term_block_lines pixels bg_color screen_width screen_height img_width img_height =
     (let padding_h = (screen_height - img_height div 2) div 2;
          padding_w = (screen_width - img_width) div 2;
          out_lines = map (\<lambda>y. padding_line bg_color screen_width) (py_range padding_h)
      in case img_to_term_block_rows pixels bg_color screen_width img_width padding_w
                (range_step 0 (img_height - 1) 2) out_lines of
           Inl e \<Rightarrow> Inl e
         | Inr out_lines \<Rightarrow>
             Inr (bottom_padding (padding_line bg_color screen_width) screen_height out_lines))"

definition img_to_term_block ::
  "image \<Rightarrow> int \<Rightarrow> int \<Rightarrow> int \<Rightarrow> int \<Rightarrow> int \<Rightarrow> error + ustring" where
  "img_to_term_block pixels bg_color screen_width screen_height img_width img_height =
     (case img_to_term_block_lines pixels bg_color screen_width screen_height img_width
             img_height of
        Inl e \<Rightarrow> Inl e
      | Inr out_lines \<Rightarrow> Inr (py_join (ascii [CHR 0x0A]) out_lines))"

subsection \<open>Notions in which the properties are stated\<close>

text \<open>
  The foreground escape of a colour, the four fragments of lines 45 to 48 (and 107 to 110)
  joined: \<open>ESC[38;5;<code>m\<close>. The background escape of lines 113 to 116 has the form of
  \<open>bg\<close>.
\<close>

definition fg :: "int \<Rightarrow> ustring" where
  "fg color = ESC @ ascii ''[38;5;'' @ str_int color @ ascii ''m''"

text \<open>\<open>text.split(sep)\<close> for a separator of one character: the empty text gives one empty line.\<close>

fun split_on :: "nat \<Rightarrow> ustring \<Rightarrow> ustring list" where
  "split_on sep [] = [[]]"
| "split_on sep (c # cs) =
     (if c = sep then [] # split_on sep cs
      else (case split_on sep cs of [] \<Rightarrow> [[c]] | l # ls \<Rightarrow> (c # l) # ls))"

text \<open>
  Removing the escape sequences of a line: an escape sequence starts at the character ESC
  and ends with the next letter \<open>m\<close>. The flag says whether the scan is inside a sequence.
\<close>

fun strip_escapes :: "bool \<Rightarrow> ustring \<Rightarrow> ustring" where
  "strip_escapes inside [] = []"
| "strip_escapes False (c # cs) =
     (if c = 27 then strip_escapes True cs else c # strip_escapes False cs)"
| "strip_escapes True (c # cs) =
     (if c = 109 then strip_escapes False cs else strip_escapes True cs)"

definition visible_width :: "ustring \<Rightarrow> nat" where
  "visible_width line = length (strip_escapes False line)"

text \<open>The number of places of a line at which a foreground escape \<open>ESC[38;5;\<close> starts.\<close>

fun count_fg :: "ustring \<Rightarrow> nat" where
  "count_fg [] = 0"
| "count_fg (c # cs) =
     (if prefix (ESC @ ascii ''[38;5;'') (c # cs) then Suc (count_fg cs) else count_fg cs)"

text \<open>The number of maximal runs of equal values in a sequence.\<close>

fun runs :: "int list \<Rightarrow> nat" where
  "runs [] = 0"
| "runs [c] = 1"
| "runs (c # d # cs) = (if c = d then runs (d # cs) else Suc (runs (d # cs)))"

text \<open>The pixel sequence of row \<open>y\<close>: its first \<open>img_width\<close> pixels.\<close>

definition row_pixels :: "image \<Rightarrow> int \<Rightarrow> int \<Rightarrow> int list" where
  "row_pixels pixels img_width y = take (nat img_width) (pixels ! nat y)"

text \<open>
  A text has well-formed escapes for the foreground codes \<open>fgs\<close> and the background codes
  \<open>bgs\<close> when, at every place where the character ESC stands, one of the three sequences
  starts: a foreground escape of a code of \<open>fgs\<close>, a background escape of a code of \<open>bgs\<close>,
  or the reset.
\<close>

definition escape_form :: "int list \<Rightarrow> int list \<Rightarrow> ustring \<Rightarrow> bool" where
  "escape_form fgs bgs s =
     (list_ex (\<lambda>c. prefix (fg c) s) fgs \<or> list_ex (\<lambda>c. prefix (bg c) s) bgs \<or> prefix RESET s)"

fun escapes_ok :: "int list \<Rightarrow> int list \<Rightarrow> ustring \<Rightarrow> bool" where
  "escapes_ok fgs bgs [] = True"
| "escapes_ok fgs bgs (c # cs) =
     ((c \<noteq> 27 \<or> escape_form fgs bgs (c # cs)) \<and> escapes_ok fgs bgs cs)"

subsection \<open>The text of a row, as a function of the image\<close>

text \<open>
  The loops of the source accumulate fragments and may stop at a read that fails. The functions
  below give, without accumulator, the text that a row has when every read succeeds, and the
  condition under which every read succeeds; both are proved equal to what the loops
  compute.
\<close>

definition readable :: "image \<Rightarrow> int \<Rightarrow> int \<Rightarrow> bool" where
  "readable pixels x y =
     (0 \<le> y \<and> y < int (length pixels) \<and> 0 \<le> x \<and> x < int (length (pixels ! nat y)))"

fun cells_text :: "int \<Rightarrow> (int \<times> ustring) list \<Rightarrow> ustring" where
  "cells_text cur [] = []"
| "cells_text cur ((color, glyph) # cgs) =
     (if color \<noteq> cur then fg color else []) @ glyph @ cells_text color cgs"

text \<open>The text that the read of the ramp yields for a luminance (empty when the call ends).\<close>

definition glyph_read :: "memory \<Rightarrow> ustring list \<Rightarrow> int \<Rightarrow> int \<Rightarrow> ustring" where
  "glyph_read beyond ascii_palette ascii_palette_len gray_val =
     (case ramp_at beyond ascii_palette (ramp_index gray_val ascii_palette_len) of
        Inl e \<Rightarrow> [] | Inr glyph \<Rightarrow> glyph)"

definition cell_of ::
  "memory \<Rightarrow> image \<Rightarrow> image \<Rightarrow> ustring list \<Rightarrow> int \<Rightarrow> int \<Rightarrow> int \<Rightarrow> int \<times> ustring" where
  "cell_of beyond pixels pixels_gray ascii_palette ascii_palette_len y x =
     (pixels ! nat y ! nat x + 16,
      glyph_read beyond ascii_palette ascii_palette_len (pixels_gray ! nat y ! nat x))"

definition cell_ok ::
  "memory \<Rightarrow> image \<Rightarrow> image \<Rightarrow> ustring list \<Rightarrow> int \<Rightarrow> int \<Rightarrow> int \<Rightarrow> bool" where
  "cell_ok beyond pixels pixels_gray ascii_palette ascii_palette_len y x =
     (readable pixels_gray x y \<and> readable pixels x y \<and>
      \<not> isl (ramp_at beyond ascii_palette
               (ramp_index (pixels_gray ! nat y ! nat x) ascii_palette_len)))"

definition left_padding :: "int \<Rightarrow> int \<Rightarrow> ustring" where
  "left_padding bg_color padding_w =
     (if padding_w > 0 then bg bg_color @ py_repeat (ascii '' '') padding_w else [])"

definition right_padding :: "int \<Rightarrow> int \<Rightarrow> int \<Rightarrow> ustring" where
  "right_padding bg_color screen_width visible_len =
     (if visible_len < screen_width
      then bg bg_color @ py_repeat (ascii '' '') (screen_width - visible_len) else [])"

definition term_row_text ::
  "memory \<Rightarrow> image \<Rightarrow> image \<Rightarrow> int \<Rightarrow> ustring list \<Rightarrow> int \<Rightarrow> int \<Rightarrow> int \<Rightarrow> int \<Rightarrow> int \<Rightarrow> ustring" where
  "term_row_text beyond pixels pixels_gray bg_color ascii_palette ascii_palette_len screen_width
     img_width padding_w y =
     left_padding bg_color padding_w @
     cells_text (- 1)
       (map (cell_of beyond pixels pixels_gray ascii_palette ascii_palette_len y) (py_range img_width)) @
     right_padding bg_color screen_width (padding_w + img_width) @ RESET"

definition row_ok :: "memory \<Rightarrow> image \<Rightarrow> image \<Rightarrow> ustring list \<Rightarrow> int \<Rightarrow> int \<Rightarrow> int \<Rightarrow> bool" where
  "row_ok beyond pixels pixels_gray ascii_palette ascii_palette_len img_width y =
     (\<forall>x\<in>set (py_range img_width).
        cell_ok beyond pixels pixels_gray ascii_palette ascii_palette_len y x)"

definition term_ok :: "memory \<Rightarrow> image \<Rightarrow> image \<Rightarrow> ustring list \<Rightarrow> int \<Rightarrow> int \<Rightarrow> int \<Rightarrow> bool" where
  "term_ok beyond pixels pixels_gray ascii_palette ascii_palette_len img_width img_height =
     (\<forall>y\<in>set (py_range img_height).
        row_ok beyond pixels pixels_gray ascii_palette ascii_palette_len img_width y)"

fun block_cells_text :: "int \<Rightarrow> int \<Rightarrow> (int \<times> int) list \<Rightarrow> ustring" where
  "block_cells_text cur_fg cur_bg [] = []"
| "block_cells_text cur_fg cur_bg ((top_color, bot_color) # cs) =
     (if top_color \<noteq> cur_fg then fg top_color else []) @
     (if bot_color \<noteq> cur_bg then bg bot_color else []) @
     half_block @ block_cells_text top_color bot_color cs"

definition block_cell_of :: "image \<Rightarrow> int \<Rightarrow> int \<Rightarrow> int \<times> int" where
  "block_cell_of pixels y x =
     (pixels ! nat y ! nat x + 16, pixels ! nat (y + 1) ! nat x + 16)"

definition block_row_text :: "image \<Rightarrow> int \<Rightarrow> int \<Rightarrow> int \<Rightarrow> int \<Rightarrow> int \<Rightarrow> ustring" where
  "block_row_text pixels bg_color screen_width img_width padding_w y =
     left_padding bg_color padding_w @
     block_cells_text (- 1) (- 1) (map (block_cell_of pixels y) (py_range img_width)) @
     right_padding bg_color screen_width (padding_w + img_width) @ RESET"

definition block_row_ok :: "image \<Rightarrow> int \<Rightarrow> int \<Rightarrow> bool" where
  "block_row_ok pixels img_width y =
     (\<forall>x\<in>set (py_range img_width). readable pixels x y \<and> readable pixels x (y + 1))"

definition block_ok :: "image \<Rightarrow> int \<Rightarrow> int \<Rightarrow> bool" where
  "block_ok pixels img_width img_height =
     (\<forall>y\<in>set (range_step 0 (img_height - 1) 2). block_row_ok pixels img_width y)"

text \<open>
  The number of foreground escapes that a row emits for a sequence of colours when the
  tracker starts at \<open>cur\<close>: one for each colour that differs from its predecessor.
\<close>

fun changes :: "int \<Rightarrow> int list \<Rightarrow> nat" where
  "changes cur [] = 0"
| "changes cur (c # cs) = (if c \<noteq> cur then Suc (changes c cs) else changes c cs)"

text \<open>Reading a decimal rendering back: the value of a text of digits with an optional sign.\<close>

definition digits_value :: "ustring \<Rightarrow> nat" where
  "digits_value ds = foldl (\<lambda>a d. 10 * a + (d - 48)) 0 ds"

definition decimal_value :: "ustring \<Rightarrow> int" where
  "decimal_value s =
     (case s of [] \<Rightarrow> 0
      | c # ds \<Rightarrow> if c = 45 then - int (digits_value ds) else int (digits_value (c # ds)))"

declare digits.simps [simp del] range_step.simps [simp del] bottom_padding.simps [simp del]

section \<open>Properties\<close>

subsection \<open>The loops of \<open>img_to_term\<close>\<close>

lemma py_join_empty: "py_join [] parts = concat parts"
  by (induction "[]::ustring" parts rule: py_join.induct) auto

lemma pixel_at_readable: "pixel_at pixels x y = (if readable pixels x y then Inr (pixels ! nat y ! nat x) else Inl IndexError)"
  by (simp add: pixel_at_def readable_def)

lemma fg_parts: "concat [ESC, ascii ''[38;5;'', str_int color, ascii ''m''] = fg color"
  by (simp add: fg_def)

lemma ramp_at_glyph_read:
  "\<not> isl (ramp_at beyond ascii_palette (ramp_index gray_val ascii_palette_len)) \<Longrightarrow>
   ramp_at beyond ascii_palette (ramp_index gray_val ascii_palette_len) =
   Inr (glyph_read beyond ascii_palette ascii_palette_len gray_val)"
  by (cases "ramp_at beyond ascii_palette (ramp_index gray_val ascii_palette_len)")
     (simp_all add: glyph_read_def)

lemma img_to_term_cells_Inr:
  "img_to_term_cells beyond pixels pixels_gray ascii_palette ascii_palette_len y xs (parts, cur)
     = Inr (parts', cur')
   \<Longrightarrow> (\<forall>x\<in>set xs. cell_ok beyond pixels pixels_gray ascii_palette ascii_palette_len y x) \<and>
       concat parts' = concat parts @
         cells_text cur
           (map (cell_of beyond pixels pixels_gray ascii_palette ascii_palette_len y) xs)"
proof (induction xs arbitrary: parts cur)
  case Nil
  then show ?case by simp
next
  case (Cons x xs)
  from Cons.prems have ok: "cell_ok beyond pixels pixels_gray ascii_palette ascii_palette_len y x"
    by (auto simp: pixel_at_readable cell_ok_def Let_def split: if_splits sum.splits)
  let ?c = "pixels ! nat y ! nat x + 16"
  let ?g = "glyph_read beyond ascii_palette ascii_palette_len (pixels_gray ! nat y ! nat x)"
  let ?parts = "(if ?c \<noteq> cur then parts @ [ESC, ascii ''[38;5;'', str_int ?c, ascii ''m'']
                 else parts) @ [?g]"
  from ok have r: "ramp_at beyond ascii_palette
      (ramp_index (pixels_gray ! nat y ! nat x) ascii_palette_len) = Inr ?g"
    by (simp add: cell_ok_def ramp_at_glyph_read)
  from Cons.prems ok r
  have rec: "img_to_term_cells beyond pixels pixels_gray ascii_palette ascii_palette_len y xs
      (?parts, ?c) = Inr (parts', cur')"
    by (auto simp: pixel_at_readable cell_ok_def Let_def split: if_splits)
  from Cons.IH[OF rec] ok show ?case
    by (auto simp: cell_of_def fg_def)
qed

lemma img_to_term_cells_ok:
  "\<forall>x\<in>set xs. cell_ok beyond pixels pixels_gray ascii_palette ascii_palette_len y x
   \<Longrightarrow> \<exists>res. img_to_term_cells beyond pixels pixels_gray ascii_palette ascii_palette_len y xs
           (parts, cur) = Inr res"
proof (induction xs arbitrary: parts cur)
  case Nil
  then show ?case by simp
next
  case (Cons x xs)
  then have ok: "cell_ok beyond pixels pixels_gray ascii_palette ascii_palette_len y x" by simp
  then have r: "ramp_at beyond ascii_palette
      (ramp_index (pixels_gray ! nat y ! nat x) ascii_palette_len) =
      Inr (glyph_read beyond ascii_palette ascii_palette_len (pixels_gray ! nat y ! nat x))"
    by (simp add: cell_ok_def ramp_at_glyph_read)
  from Cons ok r show ?case
    by (simp add: pixel_at_readable cell_ok_def Let_def)
qed

lemma img_to_term_row_iff:
  "img_to_term_row beyond pixels pixels_gray bg_color ascii_palette ascii_palette_len screen_width
     img_width padding_w y = Inr line \<longleftrightarrow>
   row_ok beyond pixels pixels_gray ascii_palette ascii_palette_len img_width y \<and>
   line = term_row_text beyond pixels pixels_gray bg_color ascii_palette ascii_palette_len screen_width
            img_width padding_w y"
  (is "?L \<longleftrightarrow> ?R")
proof
  assume ?L
  then obtain parts' cur' where
    c: "img_to_term_cells beyond pixels pixels_gray ascii_palette ascii_palette_len y (py_range img_width)
          (if padding_w > 0 then [bg bg_color, py_repeat (ascii '' '') padding_w] else [], - 1)
        = Inr (parts', cur')"
    by (auto simp: img_to_term_row_def Let_def split: sum.splits)
  from img_to_term_cells_Inr[OF c] \<open>?L\<close> c show ?R
    by (auto simp: img_to_term_row_def Let_def row_ok_def term_row_text_def py_join_empty
        left_padding_def right_padding_def)
next
  assume r: ?R
  then obtain res where
    "img_to_term_cells beyond pixels pixels_gray ascii_palette ascii_palette_len y (py_range img_width)
          (if padding_w > 0 then [bg bg_color, py_repeat (ascii '' '') padding_w] else [], - 1)
        = Inr res"
    unfolding row_ok_def using img_to_term_cells_ok by blast
  then obtain parts' cur' where
    c: "img_to_term_cells beyond pixels pixels_gray ascii_palette ascii_palette_len y (py_range img_width)
          (if padding_w > 0 then [bg bg_color, py_repeat (ascii '' '') padding_w] else [], - 1)
        = Inr (parts', cur')"
    by (cases res) auto
  from img_to_term_cells_Inr[OF c] r c show ?L
    by (auto simp: img_to_term_row_def Let_def row_ok_def term_row_text_def py_join_empty
        left_padding_def right_padding_def)
qed

lemma img_to_term_rows_iff:
  "img_to_term_rows beyond pixels pixels_gray bg_color ascii_palette ascii_palette_len screen_width
     img_width padding_w ys out_lines = Inr res \<longleftrightarrow>
   (\<forall>y\<in>set ys. row_ok beyond pixels pixels_gray ascii_palette ascii_palette_len img_width y) \<and>
   res = out_lines @
         map (term_row_text beyond pixels pixels_gray bg_color ascii_palette ascii_palette_len
                screen_width img_width padding_w) ys"
proof (induction ys arbitrary: out_lines)
  case Nil
  then show ?case by auto
next
  case (Cons y ys)
  show ?case
  proof (cases "img_to_term_row beyond pixels pixels_gray bg_color ascii_palette ascii_palette_len
                  screen_width img_width padding_w y")
    case (Inl e)
    then show ?thesis
      using img_to_term_row_iff[of beyond pixels pixels_gray bg_color ascii_palette ascii_palette_len
                screen_width img_width padding_w y] by auto
  next
    case (Inr line)
    then show ?thesis
      using img_to_term_row_iff[of beyond pixels pixels_gray bg_color ascii_palette ascii_palette_len
                screen_width img_width padding_w y line] Cons.IH[of "out_lines @ [line]"]
      by auto
  qed
qed

lemma bottom_padding_eq:
  "bottom_padding line screen_height out_lines =
     out_lines @ replicate (nat (screen_height - int (length out_lines))) line"
proof (induction line screen_height out_lines rule: bottom_padding.induct)
  case (1 line screen_height out_lines)
  show ?case
  proof (cases "int (length out_lines) < screen_height")
    case True
    then have "nat (screen_height - int (length out_lines)) =
       Suc (nat (screen_height - int (length (out_lines @ [line]))))" by simp
    with True 1 show ?thesis
      by (subst bottom_padding.simps) (simp add: replicate_app_Cons_same)
  next
    case False
    then show ?thesis by (subst bottom_padding.simps) simp
  qed
qed

lemma py_range_map: "map (\<lambda>y. v) (py_range n) = replicate (nat n) v"
  by (simp add: py_range_def map_replicate_const)

lemma img_to_term_lines_iff:
  "img_to_term_lines beyond pixels pixels_gray bg_color ascii_palette ascii_palette_len screen_width
     screen_height img_width img_height = Inr ls \<longleftrightarrow>
   term_ok beyond pixels pixels_gray ascii_palette ascii_palette_len img_width img_height \<and>
   ls = (let top = replicate (nat ((screen_height - img_height) div 2))
                     (padding_line bg_color screen_width);
             rows = map (term_row_text beyond pixels pixels_gray bg_color ascii_palette
                           ascii_palette_len screen_width img_width
                           ((screen_width - img_width) div 2)) (py_range img_height)
         in top @ rows @
            replicate (nat (screen_height - int (length (top @ rows))))
              (padding_line bg_color screen_width))"
proof (cases "img_to_term_rows beyond pixels pixels_gray bg_color ascii_palette ascii_palette_len
                screen_width img_width ((screen_width - img_width) div 2) (py_range img_height)
                (replicate (nat ((screen_height - img_height) div 2))
                   (padding_line bg_color screen_width))")
  case (Inl e)
  have "\<not> term_ok beyond pixels pixels_gray ascii_palette ascii_palette_len img_width img_height"
  proof
    assume "term_ok beyond pixels pixels_gray ascii_palette ascii_palette_len img_width img_height"
    then have "\<exists>res. img_to_term_rows beyond pixels pixels_gray bg_color ascii_palette
                ascii_palette_len screen_width img_width ((screen_width - img_width) div 2)
                (py_range img_height)
                (replicate (nat ((screen_height - img_height) div 2))
                   (padding_line bg_color screen_width)) = Inr res"
      by (simp add: img_to_term_rows_iff term_ok_def)
    with Inl show False by simp
  qed
  with Inl show ?thesis
    by (simp add: img_to_term_lines_def Let_def py_range_map)
next
  case (Inr res)
  then show ?thesis
    using img_to_term_rows_iff[of beyond pixels pixels_gray bg_color ascii_palette ascii_palette_len
                screen_width img_width "(screen_width - img_width) div 2" "py_range img_height"
                "replicate (nat ((screen_height - img_height) div 2))
                   (padding_line bg_color screen_width)" res]
    by (auto simp: img_to_term_lines_def Let_def py_range_map term_ok_def bottom_padding_eq)
qed


subsection \<open>The loops of \<open>img_to_term_block\<close>\<close>

lemma bg_parts: "concat [ESC, ascii ''[48;5;'', str_int color, ascii ''m''] = bg color"
  by (simp add: bg_def)

lemma img_to_term_block_cells_Inr:
  "img_to_term_block_cells pixels y xs (parts, cur_fg, cur_bg) = Inr (parts', cur_fg', cur_bg')
   \<Longrightarrow> (\<forall>x\<in>set xs. readable pixels x y \<and> readable pixels x (y + 1)) \<and>
       concat parts' =
         concat parts @ block_cells_text cur_fg cur_bg (map (block_cell_of pixels y) xs)"
proof (induction xs arbitrary: parts cur_fg cur_bg)
  case Nil
  then show ?case by simp
next
  case (Cons x xs)
  from Cons.prems have ok: "readable pixels x y \<and> readable pixels x (y + 1)"
    by (auto simp: pixel_at_readable split: if_splits)
  let ?t = "pixels ! nat y ! nat x + 16"
  let ?b = "pixels ! nat (y + 1) ! nat x + 16"
  let ?p1 = "if ?t \<noteq> cur_fg then parts @ [ESC, ascii ''[38;5;'', str_int ?t, ascii ''m'']
             else parts"
  let ?p2 = "(if ?b \<noteq> cur_bg then ?p1 @ [ESC, ascii ''[48;5;'', str_int ?b, ascii ''m'']
              else ?p1) @ [half_block]"
  from Cons.prems ok
  have rec: "img_to_term_block_cells pixels y xs (?p2, ?t, ?b) = Inr (parts', cur_fg', cur_bg')"
    by (auto simp: pixel_at_readable Let_def split: if_splits)
  from Cons.IH[OF rec] ok show ?case
    by (auto simp: block_cell_of_def fg_def bg_def)
qed

lemma img_to_term_block_cells_ok:
  "\<forall>x\<in>set xs. readable pixels x y \<and> readable pixels x (y + 1)
   \<Longrightarrow> \<exists>res. img_to_term_block_cells pixels y xs (parts, cur_fg, cur_bg) = Inr res"
proof (induction xs arbitrary: parts cur_fg cur_bg)
  case Nil
  then show ?case by simp
next
  case (Cons x xs)
  then show ?case
    by (simp add: pixel_at_readable Let_def)
qed

lemma img_to_term_block_row_iff:
  "img_to_term_block_row pixels bg_color screen_width img_width padding_w y = Inr line \<longleftrightarrow>
   block_row_ok pixels img_width y \<and>
   line = block_row_text pixels bg_color screen_width img_width padding_w y"
  (is "?L \<longleftrightarrow> ?R")
proof
  assume ?L
  then obtain parts' cf cb where
    c: "img_to_term_block_cells pixels y (py_range img_width)
          (if padding_w > 0 then [bg bg_color, py_repeat (ascii '' '') padding_w] else [],
           - 1, - 1) = Inr (parts', cf, cb)"
    by (auto simp: img_to_term_block_row_def Let_def split: sum.splits)
  from img_to_term_block_cells_Inr[OF c] \<open>?L\<close> c show ?R
    by (auto simp: img_to_term_block_row_def Let_def block_row_ok_def block_row_text_def
        py_join_empty left_padding_def right_padding_def)
next
  assume r: ?R
  then obtain res where
    "img_to_term_block_cells pixels y (py_range img_width)
          (if padding_w > 0 then [bg bg_color, py_repeat (ascii '' '') padding_w] else [],
           - 1, - 1) = Inr res"
    unfolding block_row_ok_def using img_to_term_block_cells_ok by blast
  then obtain parts' cf cb where
    c: "img_to_term_block_cells pixels y (py_range img_width)
          (if padding_w > 0 then [bg bg_color, py_repeat (ascii '' '') padding_w] else [],
           - 1, - 1) = Inr (parts', cf, cb)"
    by (cases res) auto
  from img_to_term_block_cells_Inr[OF c] r c show ?L
    by (auto simp: img_to_term_block_row_def Let_def block_row_ok_def block_row_text_def
        py_join_empty left_padding_def right_padding_def)
qed

lemma img_to_term_block_rows_iff:
  "img_to_term_block_rows pixels bg_color screen_width img_width padding_w ys out_lines = Inr res
   \<longleftrightarrow>
   (\<forall>y\<in>set ys. block_row_ok pixels img_width y) \<and>
   res = out_lines @ map (block_row_text pixels bg_color screen_width img_width padding_w) ys"
proof (induction ys arbitrary: out_lines)
  case Nil
  then show ?case by auto
next
  case (Cons y ys)
  show ?case
  proof (cases "img_to_term_block_row pixels bg_color screen_width img_width padding_w y")
    case (Inl e)
    then show ?thesis
      using img_to_term_block_row_iff[of pixels bg_color screen_width img_width padding_w y]
      by auto
  next
    case (Inr line)
    then show ?thesis
      using img_to_term_block_row_iff[of pixels bg_color screen_width img_width padding_w y line]
        Cons.IH[of "out_lines @ [line]"]
      by auto
  qed
qed

lemma img_to_term_block_lines_iff:
  "img_to_term_block_lines pixels bg_color screen_width screen_height img_width img_height
     = Inr ls \<longleftrightarrow>
   block_ok pixels img_width img_height \<and>
   ls = (let top = replicate (nat ((screen_height - img_height div 2) div 2))
                     (padding_line bg_color screen_width);
             rows = map (block_row_text pixels bg_color screen_width img_width
                           ((screen_width - img_width) div 2))
                      (range_step 0 (img_height - 1) 2)
         in top @ rows @
            replicate (nat (screen_height - int (length (top @ rows))))
              (padding_line bg_color screen_width))"
proof (cases "img_to_term_block_rows pixels bg_color screen_width img_width
                ((screen_width - img_width) div 2) (range_step 0 (img_height - 1) 2)
                (replicate (nat ((screen_height - img_height div 2) div 2))
                   (padding_line bg_color screen_width))")
  case (Inl e)
  have "\<not> block_ok pixels img_width img_height"
  proof
    assume "block_ok pixels img_width img_height"
    then have "\<exists>res. img_to_term_block_rows pixels bg_color screen_width img_width
                ((screen_width - img_width) div 2) (range_step 0 (img_height - 1) 2)
                (replicate (nat ((screen_height - img_height div 2) div 2))
                   (padding_line bg_color screen_width)) = Inr res"
      by (simp add: img_to_term_block_rows_iff block_ok_def)
    with Inl show False by simp
  qed
  with Inl show ?thesis
    by (simp add: img_to_term_block_lines_def Let_def py_range_map)
next
  case (Inr res)
  then show ?thesis
    using img_to_term_block_rows_iff[of pixels bg_color screen_width img_width
                "(screen_width - img_width) div 2" "range_step 0 (img_height - 1) 2"
                "replicate (nat ((screen_height - img_height div 2) div 2))
                   (padding_line bg_color screen_width)" res]
    by (auto simp: img_to_term_block_lines_def Let_def py_range_map block_ok_def
        bottom_padding_eq)
qed

subsection \<open>Ranges and the success of a call\<close>

lemma py_range_pos: "0 < n \<Longrightarrow> py_range n = 0 # map (\<lambda>k. k + 1) (py_range (n - 1))"
proof -
  assume "0 < n"
  then have m: "nat n = Suc (nat (n - 1))" by simp
  have "[0 ..< Suc (nat (n - 1))] = 0 # map Suc [0 ..< nat (n - 1)]"
    by (simp add: upt_conv_Cons map_Suc_upt del: upt_Suc)
  then show ?thesis
    by (simp add: py_range_def m comp_def del: upt_Suc)
qed

lemma py_range_nonpos: "n \<le> 0 \<Longrightarrow> py_range n = []"
  by (simp add: py_range_def)

lemma set_py_range: "set (py_range n) = {0 ..< n}"
proof (rule set_eqI)
  fix x
  show "x \<in> set (py_range n) \<longleftrightarrow> x \<in> {0 ..< n}"
  proof
    assume "x \<in> set (py_range n)"
    then obtain k where "x = int k" "k < nat n" by (auto simp: py_range_def)
    then show "x \<in> {0 ..< n}" by (simp add: zless_nat_eq_int_zless)
  next
    assume a: "x \<in> {0 ..< n}"
    then have "x = int (nat x)" "nat x \<in> {0 ..< nat n}" by auto
    then have "x \<in> int ` {0 ..< nat n}" by (rule image_eqI)
    then show "x \<in> set (py_range n)" by (simp add: py_range_def)
  qed
qed

lemma length_py_range: "length (py_range n) = nat n"
  by (simp add: py_range_def)

lemma range_step_by_two:
  "range_step start stop 2 = map (\<lambda>k. start + 2 * k) (py_range ((stop - start + 1) div 2))"
proof (induction start stop "2 :: int" rule: range_step.induct)
  case (1 start stop)
  show ?case
  proof (cases "start < stop")
    case True
    then have pos: "0 < (stop - start + 1) div 2" by simp
    have eq: "(stop - start + 1) div 2 - 1 = (stop - (start + 2) + 1) div 2" by simp
    from True 1 have "range_step start stop 2 =
        start # map (\<lambda>k. start + 2 + 2 * k) (py_range ((stop - (start + 2) + 1) div 2))"
      by (subst range_step.simps) simp
    also have "\<dots> = start # map (\<lambda>k. start + 2 * (k + 1))
        (py_range ((stop - start + 1) div 2 - 1))"
      by (simp only: eq) (simp add: algebra_simps)
    also have "\<dots> = map (\<lambda>k. start + 2 * k) (0 # map (\<lambda>k. k + 1)
        (py_range ((stop - start + 1) div 2 - 1)))"
      by (simp add: comp_def)
    also have "\<dots> = map (\<lambda>k. start + 2 * k) (py_range ((stop - start + 1) div 2))"
      by (simp only: py_range_pos[OF pos, symmetric])
    finally show ?thesis .
  next
    case False
    then have "(stop - start + 1) div 2 \<le> 0" by simp
    with False show ?thesis
      by (subst range_step.simps) (simp add: py_range_nonpos)
  qed
qed

lemma block_rows_index: "range_step 0 (img_height - 1) 2 = map (\<lambda>k. 2 * k) (py_range (img_height div 2))"
  by (simp add: range_step_by_two)


lemma img_to_term_lines_ok:
  "term_ok beyond pixels pixels_gray ascii_palette ascii_palette_len img_width img_height \<Longrightarrow>
   \<exists>ls. img_to_term_lines beyond pixels pixels_gray bg_color ascii_palette ascii_palette_len
           screen_width screen_height img_width img_height = Inr ls"
  using img_to_term_lines_iff by blast

lemma img_to_term_lines_Inr_ok:
  "img_to_term_lines beyond pixels pixels_gray bg_color ascii_palette ascii_palette_len
           screen_width screen_height img_width img_height = Inr ls \<Longrightarrow>
   term_ok beyond pixels pixels_gray ascii_palette ascii_palette_len img_width img_height"
  using img_to_term_lines_iff by blast

subsection \<open>The index into the glyph ramp at the two ends\<close>

lemma c_int_id: "- 2147483648 \<le> i \<Longrightarrow> i \<le> 2147483647 \<Longrightarrow> c_int i = i"
  by (simp add: c_int_def)

lemma ramp_product_in_c_int:
  assumes "(0::int) \<le> gray_val" "gray_val \<le> 255" "0 \<le> ascii_palette_len"
    "ascii_palette_len \<le> 8421504"
  shows "0 \<le> gray_val * ascii_palette_len \<and> gray_val * ascii_palette_len \<le> 2147483647"
proof -
  have "gray_val * ascii_palette_len \<le> 255 * 8421504"
    using assms by (intro mult_mono) auto
  with assms show ?thesis by simp
qed

lemma ramp_index_exact:
  assumes "(0::int) \<le> gray_val" "gray_val \<le> 255" "0 \<le> ascii_palette_len"
    "ascii_palette_len \<le> 8421504"
  shows "ramp_index gray_val ascii_palette_len = (gray_val * ascii_palette_len) div 255"
  using ramp_product_in_c_int[OF assms] by (simp add: ramp_index_def c_int_id)









subsection \<open>The decimal rendering of a colour\<close>

lemma digits_range: "set (digits n) \<subseteq> {48 .. 57}"
proof (induction n rule: digits.induct)
  case (1 n)
  show ?case
  proof (cases "n < 10")
    case True
    then show ?thesis by (subst digits.simps) simp
  next
    case False
    have "n mod 10 < 10" by simp
    then have "48 + n mod 10 \<le> 57" by linarith
    with False 1 show ?thesis by (subst digits.simps) simp
  qed
qed

lemma str_int_range: "set (str_int i) \<subseteq> insert 45 {48 .. 57}"
  using digits_range by (auto simp: str_int_def)

lemma digits_value_digits: "digits_value (digits n) = n"
proof (induction n rule: digits.induct)
  case (1 n)
  show ?case
  proof (cases "n < 10")
    case True
    then show ?thesis by (subst digits.simps) (simp add: digits_value_def)
  next
    case False
    with 1 have "digits_value (digits (n div 10)) = n div 10" by simp
    with False show ?thesis
      by (subst digits.simps) (simp add: digits_value_def)
  qed
qed

lemma digits_not_empty: "digits n \<noteq> []"
  by (subst digits.simps) simp

lemma digits_hd_not_minus: "hd (digits n) \<noteq> 45"
proof -
  have "hd (digits n) \<in> set (digits n)" using digits_not_empty by simp
  with digits_range[of n] show ?thesis by auto
qed

lemma decimal_value_str_int: "decimal_value (str_int i) = i"
proof (cases "i < 0")
  case True
  then show ?thesis by (simp add: str_int_def decimal_value_def digits_value_digits)
next
  case False
  obtain c ds where d: "digits (nat i) = c # ds"
    using digits_not_empty[of "nat i"] by (cases "digits (nat i)") auto
  with digits_hd_not_minus[of "nat i"] have "c \<noteq> 45" by simp
  with False d digits_value_digits[of "nat i"] show ?thesis
    by (simp add: str_int_def decimal_value_def)
qed

subsection \<open>The characters of the padding fragments\<close>

lemma RESET_codes: "RESET = [27, 91, 48, 109]"
  by (simp add: RESET_def ESC_def ascii_def)

lemma bg_codes: "bg c = 27 # [91, 52, 56, 59, 53, 59] @ str_int c @ [109]"
  by (simp add: bg_def ESC_def ascii_def)

lemma spaces_codes: "py_repeat (ascii '' '') n = replicate (nat n) 32"
  by (simp add: py_repeat_def ascii_def)

lemma padding_line_codes:
  "padding_line bg_color screen_width =
   [27, 91, 52, 56, 59, 53, 59] @ str_int bg_color @ [109] @ replicate (nat screen_width) 32 @
   [27, 91, 48, 109]"
  by (simp add: padding_line_def bg_codes spaces_codes RESET_codes)

lemma left_padding_codes:
  "left_padding bg_color padding_w =
   (if 0 < padding_w
    then [27, 91, 52, 56, 59, 53, 59] @ str_int bg_color @ [109] @ replicate (nat padding_w) 32
    else [])"
  by (simp add: left_padding_def bg_codes spaces_codes)

lemma right_padding_codes:
  "right_padding bg_color screen_width visible_len =
   (if visible_len < screen_width
    then [27, 91, 52, 56, 59, 53, 59] @ str_int bg_color @ [109] @
         replicate (nat (screen_width - visible_len)) 32
    else [])"
  by (simp add: right_padding_def bg_codes spaces_codes)

subsection \<open>Image heights below two in \<open>img_to_term_block\<close>\<close>

lemma top_bottom_padding:
  "replicate (nat (h div 2)) v @ replicate (nat (h - int (nat (h div 2)))) v = replicate (nat h) v"
proof -
  have "nat (h div 2) + nat (h - int (nat (h div 2))) = nat (h :: int)"
    by (cases "0 \<le> h") auto
  then show ?thesis by (simp only: replicate_add[symmetric])
qed

lemma img_to_term_block_Inr_iff:
  "img_to_term_block pixels bg_color screen_width screen_height img_width img_height = Inr text
   \<longleftrightarrow>
   (\<exists>ls. img_to_term_block_lines pixels bg_color screen_width screen_height img_width img_height
           = Inr ls \<and> text = py_join [10] ls)"
  by (auto simp: img_to_term_block_def ascii_def split: sum.splits)

text \<open>
  Claim C9. For an image height of 0 or 1 the row loop of \<open>img_to_term_block\<close> ranges over
  the empty list, so \<open>out_lines\<close> holds \<open>screen_height\<close> lines and each of them is a padding
  row: the background escape \<open>ESC[48;5;<bg_color>m\<close>, \<open>screen_width\<close> spaces and the reset
  \<open>ESC[0m\<close>, where the code of the escape is the decimal rendering of \<open>bg_color\<close>. The call
  returns these lines joined by newlines. No pixel is read: the call returns the same text on
  the empty image, on which every read would fail.
\<close>

theorem block_height_below_two_only_padding:
  "img_height = 0 \<or> img_height = 1 \<Longrightarrow>
   range_step 0 (img_height - 1) 2 = [] \<and>
   img_to_term_block_lines pixels bg_color screen_width screen_height img_width img_height
     = Inr (replicate (nat screen_height)
              ([27, 91, 52, 56, 59, 53, 59] @ str_int bg_color @ [109] @
               replicate (nat screen_width) 32 @ [27, 91, 48, 109])) \<and>
   img_to_term_block pixels bg_color screen_width screen_height img_width img_height
     = Inr (py_join [10]
              (replicate (nat screen_height)
                 ([27, 91, 52, 56, 59, 53, 59] @ str_int bg_color @ [109] @
                  replicate (nat screen_width) 32 @ [27, 91, 48, 109]))) \<and>
   img_to_term_block pixels bg_color screen_width screen_height img_width img_height
     = img_to_term_block [] bg_color screen_width screen_height img_width img_height \<and>
   decimal_value (str_int bg_color) = bg_color"
proof -
  assume h: "img_height = 0 \<or> img_height = 1"
  then have r: "range_step 0 (img_height - 1) 2 = []"
    by (auto simp: range_step.simps)
  from h have d: "img_height div 2 = 0" by auto
  have l: "img_to_term_block_lines p bg_color screen_width screen_height img_width img_height
     = Inr (replicate (nat screen_height) (padding_line bg_color screen_width))" for p
    using top_bottom_padding[of screen_height "padding_line bg_color screen_width"]
    by (simp add: img_to_term_block_lines_iff block_ok_def r d Let_def)
  have t: "img_to_term_block p bg_color screen_width screen_height img_width img_height
     = Inr (py_join [10] (replicate (nat screen_height) (padding_line bg_color screen_width)))"
    for p
    by (simp add: img_to_term_block_def l ascii_def)
  show ?thesis
    unfolding padding_line_codes[symmetric]
    by (simp add: r l t decimal_value_str_int)
qed

theorem block_height_below_two_only_padding_witness:
  "((1::int) = 0 \<or> (1::int) = 1) \<and>
   img_to_term_block_lines [] 7 2 3 2 1 =
     Inr [[27, 91, 52, 56, 59, 53, 59, 55, 109, 32, 32, 27, 91, 48, 109],
          [27, 91, 52, 56, 59, 53, 59, 55, 109, 32, 32, 27, 91, 48, 109],
          [27, 91, 52, 56, 59, 53, 59, 55, 109, 32, 32, 27, 91, 48, 109]] \<and>
   img_to_term_block [[0, 1]] 7 2 3 2 1 = img_to_term_block [] 7 2 3 2 1"
  using block_height_below_two_only_padding[of 1 "[]" 7 2 3 2]
    block_height_below_two_only_padding[of 1 "[[0, 1]]" 7 2 3 2]
  by (simp add: numeral_3_eq_3 numeral_2_eq_2 str_int_def digits.simps)

subsection \<open>Two small calls, evaluated\<close>

lemma example_term_lines:
  "img_to_term_lines Map.empty [[0]] [[0]] 0 [ascii ''.'', ascii ''#''] 2 3 3 1 1 =
   Inr [padding_line 0 3,
        bg 0 @ ascii '' '' @ fg 16 @ ascii ''.'' @ bg 0 @ ascii '' '' @ RESET,
        padding_line 0 3]"
  by (simp add: img_to_term_lines_iff term_ok_def row_ok_def cell_ok_def Let_def
      py_range_def upt_conv_Cons readable_def term_row_text_def cell_of_def glyph_read_def
      ramp_at_def ramp_index_def c_int_def left_padding_def right_padding_def py_repeat_def
      numeral_3_eq_3)

lemma example_block_lines:
  "img_to_term_block_lines [[0], [1]] 0 3 3 1 2 =
   Inr [padding_line 0 3,
        bg 0 @ ascii '' '' @ fg 16 @ bg 17 @ half_block @ bg 0 @ ascii '' '' @ RESET,
        padding_line 0 3]"
  by (simp add: img_to_term_block_lines_iff block_ok_def block_row_ok_def Let_def
      range_step.simps py_range_def upt_conv_Cons readable_def block_row_text_def
      block_cell_of_def left_padding_def right_padding_def py_repeat_def numeral_3_eq_3)

lemma example_term_codes:
  "[padding_line 0 3,
    bg 0 @ ascii '' '' @ fg 16 @ ascii ''.'' @ bg 0 @ ascii '' '' @ RESET,
    padding_line 0 3] =
   [[27, 91, 52, 56, 59, 53, 59, 48, 109, 32, 32, 32, 27, 91, 48, 109],
       [27, 91, 52, 56, 59, 53, 59, 48, 109, 32, 27, 91, 51, 56, 59, 53, 59, 49, 54, 109, 46,
        27, 91, 52, 56, 59, 53, 59, 48, 109, 32, 27, 91, 48, 109],
       [27, 91, 52, 56, 59, 53, 59, 48, 109, 32, 32, 32, 27, 91, 48, 109]]"
  by (simp add: padding_line_codes bg_codes fg_def ESC_def RESET_codes ascii_def str_int_def
      digits.simps numeral_3_eq_3)

lemma example_block_codes:
  "[padding_line 0 3,
    bg 0 @ ascii '' '' @ fg 16 @ bg 17 @ half_block @ bg 0 @ ascii '' '' @ RESET,
    padding_line 0 3] =
   [[27, 91, 52, 56, 59, 53, 59, 48, 109, 32, 32, 32, 27, 91, 48, 109],
       [27, 91, 52, 56, 59, 53, 59, 48, 109, 32, 27, 91, 51, 56, 59, 53, 59, 49, 54, 109,
        27, 91, 52, 56, 59, 53, 59, 49, 55, 109, 9600,
        27, 91, 52, 56, 59, 53, 59, 48, 109, 32, 27, 91, 48, 109],
       [27, 91, 52, 56, 59, 53, 59, 48, 109, 32, 32, 32, 27, 91, 48, 109]]"
  by (simp add: padding_line_codes bg_codes fg_def ESC_def RESET_codes ascii_def str_int_def
      digits.simps numeral_3_eq_3 half_block_def)

subsection \<open>Padding rows and padding columns\<close>

text \<open>
  Claim C6. With an image that fits the screen, \<open>img_to_term\<close> starts \<open>out_lines\<close> with
  \<open>padding_h = (screen_height - img_height) // 2\<close> padding rows and \<open>img_to_term_block\<close>
  with \<open>padding_h = (screen_height - img_height // 2) // 2\<close> of them. A padding row is the
  background escape \<open>ESC[48;5;<bg_color>m\<close>, \<open>screen_width\<close> spaces and the reset \<open>ESC[0m\<close>;
  the code of the escape is the decimal rendering of \<open>bg_color\<close>.
  The image rows follow, and each image row starts with the background escape and
  \<open>padding_w = (screen_width - img_width) // 2\<close> spaces (with nothing when \<open>padding_w\<close> is 0),
  followed by the cells of the row, the right padding (the background escape and the spaces
  that fill the row up to \<open>screen_width\<close>) and the reset. Both counts are non-negative. The
  remaining lines are padding rows again.
\<close>

theorem padding_rows_and_columns:
  assumes "0 \<le> img_width" "img_width \<le> screen_width" "0 \<le> img_height"
    "img_height \<le> screen_height"
  shows
  "(img_to_term_lines beyond pixels pixels_gray bg_color ascii_palette ascii_palette_len
      screen_width screen_height img_width img_height = Inr out_lines \<longrightarrow>
    (let padding_h = (screen_height - img_height) div 2;
         padding_w = (screen_width - img_width) div 2;
         bg_escape = [27, 91, 52, 56, 59, 53, 59] @ str_int bg_color @ [109];
         reset = [27, 91, 48, 109];
         padding_row = bg_escape @ replicate (nat screen_width) 32 @ reset
     in 0 \<le> padding_h \<and> 0 \<le> padding_w \<and>
        out_lines =
          replicate (nat padding_h) padding_row @
          map (\<lambda>y. (if 0 < padding_w then bg_escape @ replicate (nat padding_w) 32 else []) @
                    cells_text (- 1)
                      (map (cell_of beyond pixels pixels_gray ascii_palette ascii_palette_len y)
                         (py_range img_width)) @
                    (if padding_w + img_width < screen_width
                     then bg_escape @ replicate (nat (screen_width - (padding_w + img_width))) 32
                     else []) @ reset)
            (py_range img_height) @
          replicate (nat (screen_height - padding_h - img_height)) padding_row)) \<and>
   (img_to_term_block_lines pixels bg_color screen_width screen_height img_width img_height
      = Inr out_lines_block \<longrightarrow>
    (let padding_h = (screen_height - img_height div 2) div 2;
         padding_w = (screen_width - img_width) div 2;
         bg_escape = [27, 91, 52, 56, 59, 53, 59] @ str_int bg_color @ [109];
         reset = [27, 91, 48, 109];
         padding_row = bg_escape @ replicate (nat screen_width) 32 @ reset
     in 0 \<le> padding_h \<and> 0 \<le> padding_w \<and>
        out_lines_block =
          replicate (nat padding_h) padding_row @
          map (\<lambda>y. (if 0 < padding_w then bg_escape @ replicate (nat padding_w) 32 else []) @
                    block_cells_text (- 1) (- 1)
                      (map (block_cell_of pixels y) (py_range img_width)) @
                    (if padding_w + img_width < screen_width
                     then bg_escape @ replicate (nat (screen_width - (padding_w + img_width))) 32
                     else []) @ reset)
            (range_step 0 (img_height - 1) 2) @
          replicate (nat (screen_height - padding_h - img_height div 2)) padding_row)) \<and>
   decimal_value (str_int bg_color) = bg_color"
proof (intro conjI impI)
  assume "img_to_term_lines beyond pixels pixels_gray bg_color ascii_palette ascii_palette_len
      screen_width screen_height img_width img_height = Inr out_lines"
  with assms show "let padding_h = (screen_height - img_height) div 2;
         padding_w = (screen_width - img_width) div 2;
         bg_escape = [27, 91, 52, 56, 59, 53, 59] @ str_int bg_color @ [109];
         reset = [27, 91, 48, 109];
         padding_row = bg_escape @ replicate (nat screen_width) 32 @ reset
     in 0 \<le> padding_h \<and> 0 \<le> padding_w \<and>
        out_lines =
          replicate (nat padding_h) padding_row @
          map (\<lambda>y. (if 0 < padding_w then bg_escape @ replicate (nat padding_w) 32 else []) @
                    cells_text (- 1)
                      (map (cell_of beyond pixels pixels_gray ascii_palette ascii_palette_len y)
                         (py_range img_width)) @
                    (if padding_w + img_width < screen_width
                     then bg_escape @ replicate (nat (screen_width - (padding_w + img_width))) 32
                     else []) @ reset)
            (py_range img_height) @
          replicate (nat (screen_height - padding_h - img_height)) padding_row"
    by (simp add: img_to_term_lines_iff Let_def term_row_text_def left_padding_codes
        right_padding_codes padding_line_codes RESET_codes length_py_range diff_diff_eq
        cong: map_cong)
next
  from assms have half: "img_height div 2 \<le> screen_height" by simp
  assume "img_to_term_block_lines pixels bg_color screen_width screen_height img_width
      img_height = Inr out_lines_block"
  with assms half show "let padding_h = (screen_height - img_height div 2) div 2;
         padding_w = (screen_width - img_width) div 2;
         bg_escape = [27, 91, 52, 56, 59, 53, 59] @ str_int bg_color @ [109];
         reset = [27, 91, 48, 109];
         padding_row = bg_escape @ replicate (nat screen_width) 32 @ reset
     in 0 \<le> padding_h \<and> 0 \<le> padding_w \<and>
        out_lines_block =
          replicate (nat padding_h) padding_row @
          map (\<lambda>y. (if 0 < padding_w then bg_escape @ replicate (nat padding_w) 32 else []) @
                    block_cells_text (- 1) (- 1)
                      (map (block_cell_of pixels y) (py_range img_width)) @
                    (if padding_w + img_width < screen_width
                     then bg_escape @ replicate (nat (screen_width - (padding_w + img_width))) 32
                     else []) @ reset)
            (range_step 0 (img_height - 1) 2) @
          replicate (nat (screen_height - padding_h - img_height div 2)) padding_row"
    by (simp add: img_to_term_block_lines_iff Let_def block_row_text_def left_padding_codes
        right_padding_codes padding_line_codes RESET_codes block_rows_index length_py_range
        diff_diff_eq cong: map_cong)
next
  show "decimal_value (str_int bg_color) = bg_color"
    by (rule decimal_value_str_int)
qed

theorem padding_rows_and_columns_witness:
  "(0::int) \<le> 1 \<and> (1::int) \<le> 3 \<and> (0::int) \<le> 2 \<and> (2::int) \<le> 3 \<and>
   img_to_term_lines Map.empty [[0]] [[0]] 0 [ascii ''.'', ascii ''#''] 2 3 3 1 1 =
     Inr [[27, 91, 52, 56, 59, 53, 59, 48, 109, 32, 32, 32, 27, 91, 48, 109],
       [27, 91, 52, 56, 59, 53, 59, 48, 109, 32, 27, 91, 51, 56, 59, 53, 59, 49, 54, 109, 46,
        27, 91, 52, 56, 59, 53, 59, 48, 109, 32, 27, 91, 48, 109],
       [27, 91, 52, 56, 59, 53, 59, 48, 109, 32, 32, 32, 27, 91, 48, 109]] \<and>
   (let padding_h = ((3::int) - (1::int)) div 2;
         padding_w = ((3::int) - (1::int)) div 2;
         bg_escape = [27, 91, 52, 56, 59, 53, 59] @ str_int 0 @ [109];
         reset = [27, 91, 48, 109];
         padding_row = bg_escape @ replicate (nat (3::int)) 32 @ reset
     in 0 \<le> padding_h \<and> 0 \<le> padding_w \<and>
        [[27, 91, 52, 56, 59, 53, 59, 48, 109, 32, 32, 32, 27, 91, 48, 109],
       [27, 91, 52, 56, 59, 53, 59, 48, 109, 32, 27, 91, 51, 56, 59, 53, 59, 49, 54, 109, 46,
        27, 91, 52, 56, 59, 53, 59, 48, 109, 32, 27, 91, 48, 109],
       [27, 91, 52, 56, 59, 53, 59, 48, 109, 32, 32, 32, 27, 91, 48, 109]] =
          replicate (nat padding_h) padding_row @
          map (\<lambda>y. (if 0 < padding_w then bg_escape @ replicate (nat padding_w) 32 else []) @
                    cells_text (- 1)
                      (map (cell_of Map.empty [[0]] [[0]] [ascii ''.'', ascii ''#''] 2 y)
                         (py_range (1::int))) @
                    (if padding_w + (1::int) < (3::int)
                     then bg_escape @ replicate (nat ((3::int) - (padding_w + (1::int)))) 32
                     else []) @ reset)
            (py_range (1::int)) @
          replicate (nat ((3::int) - padding_h - (1::int))) padding_row) \<and>
   img_to_term_block_lines [[0], [1]] 0 3 3 1 2 =
     Inr [[27, 91, 52, 56, 59, 53, 59, 48, 109, 32, 32, 32, 27, 91, 48, 109],
       [27, 91, 52, 56, 59, 53, 59, 48, 109, 32, 27, 91, 51, 56, 59, 53, 59, 49, 54, 109,
        27, 91, 52, 56, 59, 53, 59, 49, 55, 109, 9600,
        27, 91, 52, 56, 59, 53, 59, 48, 109, 32, 27, 91, 48, 109],
       [27, 91, 52, 56, 59, 53, 59, 48, 109, 32, 32, 32, 27, 91, 48, 109]] \<and>
   (let padding_h = ((3::int) - (2::int) div 2) div 2;
         padding_w = ((3::int) - (1::int)) div 2;
         bg_escape = [27, 91, 52, 56, 59, 53, 59] @ str_int 0 @ [109];
         reset = [27, 91, 48, 109];
         padding_row = bg_escape @ replicate (nat (3::int)) 32 @ reset
     in 0 \<le> padding_h \<and> 0 \<le> padding_w \<and>
        [[27, 91, 52, 56, 59, 53, 59, 48, 109, 32, 32, 32, 27, 91, 48, 109],
       [27, 91, 52, 56, 59, 53, 59, 48, 109, 32, 27, 91, 51, 56, 59, 53, 59, 49, 54, 109,
        27, 91, 52, 56, 59, 53, 59, 49, 55, 109, 9600,
        27, 91, 52, 56, 59, 53, 59, 48, 109, 32, 27, 91, 48, 109],
       [27, 91, 52, 56, 59, 53, 59, 48, 109, 32, 32, 32, 27, 91, 48, 109]] =
          replicate (nat padding_h) padding_row @
          map (\<lambda>y. (if 0 < padding_w then bg_escape @ replicate (nat padding_w) 32 else []) @
                    block_cells_text (- 1) (- 1)
                      (map (block_cell_of [[0], [1]] y) (py_range (1::int))) @
                    (if padding_w + (1::int) < (3::int)
                     then bg_escape @ replicate (nat ((3::int) - (padding_w + (1::int)))) 32
                     else []) @ reset)
            (range_step 0 ((2::int) - 1) 2) @
          replicate (nat ((3::int) - padding_h - (2::int) div 2)) padding_row)"
proof -
  have g: "(0::int) \<le> 1" "(1::int) \<le> 3" "(0::int) \<le> 2" "(2::int) \<le> 3" by simp_all
  note et = example_term_lines[unfolded example_term_codes]
  note eb = example_block_lines[unfolded example_block_codes]
  note a = padding_rows_and_columns[OF g(1) g(2) g(1) g(2),
      where beyond = Map.empty and pixels = "[[0]]" and pixels_gray = "[[0]]" and bg_color = 0
        and ascii_palette = "[ascii ''.'', ascii ''#'']" and ascii_palette_len = 2,
      THEN conjunct1, rule_format, OF et]
  note b = padding_rows_and_columns[OF g(1) g(2) g(3) g(4),
      where pixels = "[[0], [1]]" and bg_color = 0,
      THEN conjunct2, THEN conjunct1, rule_format, OF eb]
  show ?thesis
    by (intro conjI g et eb a b)
qed

subsection \<open>The pixels that a row reads\<close>

lemma take_as_map: "n \<le> length xs \<Longrightarrow> map (\<lambda>i. xs ! i) [0 ..< n] = take n xs"
  by (simp add: list_eq_iff_nth_eq)

lemma row_pixels_read:
  assumes "\<forall>x\<in>set (py_range img_width). readable pixels x y"
  shows "map (\<lambda>x. pixels ! nat y ! nat x) (py_range img_width) = row_pixels pixels img_width y"
proof (cases "0 < img_width")
  case True
  then have "img_width - 1 \<in> set (py_range img_width)" by (simp add: set_py_range)
  with assms have "readable pixels (img_width - 1) y" by blast
  then have "nat img_width \<le> length (pixels ! nat y)" by (auto simp: readable_def)
  then show ?thesis
    by (simp add: py_range_def row_pixels_def comp_def take_as_map)
next
  case False
  then show ?thesis by (simp add: py_range_def row_pixels_def)
qed

lemma term_row_colors:
  "row_ok beyond pixels pixels_gray ascii_palette ascii_palette_len img_width y \<Longrightarrow>
   map fst (map (cell_of beyond pixels pixels_gray ascii_palette ascii_palette_len y)
              (py_range img_width)) =
   map (\<lambda>p. p + 16) (row_pixels pixels img_width y)"
proof -
  assume "row_ok beyond pixels pixels_gray ascii_palette ascii_palette_len img_width y"
  then have "\<forall>x\<in>set (py_range img_width). readable pixels x y"
    by (simp add: row_ok_def cell_ok_def)
  from row_pixels_read[OF this, symmetric] show ?thesis
    by (simp add: cell_of_def comp_def)
qed

lemma block_row_colors:
  "block_row_ok pixels img_width y \<Longrightarrow>
   map fst (map (block_cell_of pixels y) (py_range img_width)) =
   map (\<lambda>p. p + 16) (row_pixels pixels img_width y)"
proof -
  assume "block_row_ok pixels img_width y"
  then have "\<forall>x\<in>set (py_range img_width). readable pixels x y"
    by (simp add: block_row_ok_def)
  from row_pixels_read[OF this, symmetric] show ?thesis
    by (simp add: block_cell_of_def comp_def)
qed

lemma py_range_nth: "k < nat n \<Longrightarrow> py_range n ! k = int k"
  by (simp add: py_range_def)

lemma term_content_row:
  assumes "img_to_term_lines beyond pixels pixels_gray bg_color ascii_palette ascii_palette_len
      screen_width screen_height img_width img_height = Inr out_lines"
    and "0 \<le> y" "y < img_height"
  shows "out_lines ! (nat ((screen_height - img_height) div 2) + nat y) =
         term_row_text beyond pixels pixels_gray bg_color ascii_palette ascii_palette_len
           screen_width img_width ((screen_width - img_width) div 2) y \<and>
         row_ok beyond pixels pixels_gray ascii_palette ascii_palette_len img_width y"
proof -
  from assms(2,3) have k: "nat y < nat img_height" "int (nat y) = y" by auto
  from assms(2,3) have "y \<in> set (py_range img_height)" by (simp add: set_py_range)
  with assms(1) have ok: "row_ok beyond pixels pixels_gray ascii_palette ascii_palette_len img_width y"
    by (simp add: img_to_term_lines_iff term_ok_def)
  from assms(1) k have "out_lines ! (nat ((screen_height - img_height) div 2) + nat y) =
         term_row_text beyond pixels pixels_gray bg_color ascii_palette ascii_palette_len
           screen_width img_width ((screen_width - img_width) div 2) y"
    by (simp add: img_to_term_lines_iff Let_def nth_append length_py_range py_range_nth)
  with ok show ?thesis by simp
qed

lemma block_content_row:
  assumes "img_to_term_block_lines pixels bg_color screen_width screen_height img_width
      img_height = Inr out_lines"
    and "0 \<le> k" "k < img_height div 2"
  shows "out_lines ! (nat ((screen_height - img_height div 2) div 2) + nat k) =
         block_row_text pixels bg_color screen_width img_width
           ((screen_width - img_width) div 2) (2 * k) \<and>
         block_row_ok pixels img_width (2 * k)"
proof -
  from assms(2,3) have k: "nat k < nat (img_height div 2)" "int (nat k) = k" by auto
  from assms(2,3) have "2 * k \<in> set (range_step 0 (img_height - 1) 2)"
    by (simp add: block_rows_index set_py_range)
  with assms(1) have ok: "block_row_ok pixels img_width (2 * k)"
    by (simp add: img_to_term_block_lines_iff block_ok_def)
  from assms(1) k have "out_lines ! (nat ((screen_height - img_height div 2) div 2) + nat k) =
         block_row_text pixels bg_color screen_width img_width
           ((screen_width - img_width) div 2) (2 * k)"
    by (simp add: img_to_term_block_lines_iff Let_def nth_append length_py_range py_range_nth
        block_rows_index)
  with ok show ?thesis by simp
qed


lemma block_row_lower_colors:
  "block_row_ok pixels img_width y \<Longrightarrow>
   map snd (map (block_cell_of pixels y) (py_range img_width)) =
   map (\<lambda>p. p + 16) (row_pixels pixels img_width (y + 1))"
proof -
  assume "block_row_ok pixels img_width y"
  then have "\<forall>x\<in>set (py_range img_width). readable pixels x (y + 1)"
    by (simp add: block_row_ok_def)
  from row_pixels_read[OF this, symmetric] show ?thesis
    by (simp add: block_cell_of_def comp_def)
qed

lemma block_cells_paired:
  assumes "block_row_ok pixels img_width y"
  shows "map (block_cell_of pixels y) (py_range img_width) =
         zip (map (\<lambda>p. p + 16) (row_pixels pixels img_width y))
             (map (\<lambda>p. p + 16) (row_pixels pixels img_width (y + 1)))"
proof -
  have "map (block_cell_of pixels y) (py_range img_width) =
      zip (map fst (map (block_cell_of pixels y) (py_range img_width)))
          (map snd (map (block_cell_of pixels y) (py_range img_width)))"
    by (simp only: zip_map_fst_snd)
  then show ?thesis
    by (simp only: block_row_colors[OF assms] block_row_lower_colors[OF assms])
qed

lemma block_rows_of_pairs:
  assumes "block_ok pixels img_width img_height"
  shows "map (block_row_text pixels bg_color screen_width img_width padding_w)
           (range_step 0 (img_height - 1) 2) =
         map (\<lambda>k. left_padding bg_color padding_w @
                   block_cells_text (- 1) (- 1)
                     (zip (map (\<lambda>p. p + 16) (row_pixels pixels img_width (2 * k)))
                          (map (\<lambda>p. p + 16) (row_pixels pixels img_width (2 * k + 1)))) @
                   right_padding bg_color screen_width (padding_w + img_width) @ RESET)
           (py_range (img_height div 2))"
proof -
  have "block_row_text pixels bg_color screen_width img_width padding_w (2 * k) =
        left_padding bg_color padding_w @
        block_cells_text (- 1) (- 1)
          (zip (map (\<lambda>p. p + 16) (row_pixels pixels img_width (2 * k)))
               (map (\<lambda>p. p + 16) (row_pixels pixels img_width (2 * k + 1)))) @
        right_padding bg_color screen_width (padding_w + img_width) @ RESET"
    if "k \<in> set (py_range (img_height div 2))" for k
  proof -
    from that have "2 * k \<in> set (range_step 0 (img_height - 1) 2)"
      by (simp add: block_rows_index)
    with assms have "block_row_ok pixels img_width (2 * k)"
      by (simp add: block_ok_def)
    from block_cells_paired[OF this] show ?thesis
      by (simp add: block_row_text_def)
  qed
  then show ?thesis
    by (simp add: block_rows_index comp_def cong: map_cong)
qed

subsection \<open>The pairing of source rows in \<open>img_to_term_block\<close>\<close>

lemma img_to_term_block_cells_cong:
  "\<forall>x\<in>set xs. pixel_at p x y = pixel_at q x y \<and> pixel_at p x (y + 1) = pixel_at q x (y + 1)
   \<Longrightarrow> img_to_term_block_cells p y xs st = img_to_term_block_cells q y xs st"
proof (induction xs arbitrary: st)
  case Nil
  then show ?case by simp
next
  case (Cons x xs)
  obtain parts cf cb where st: "st = (parts, cf, cb)" by (cases st) auto
  from Cons show ?case
    by (simp add: st Let_def split: sum.splits)
qed

lemma img_to_term_block_rows_cong:
  "\<forall>y\<in>set ys. \<forall>x\<in>set (py_range img_width).
      pixel_at p x y = pixel_at q x y \<and> pixel_at p x (y + 1) = pixel_at q x (y + 1)
   \<Longrightarrow> img_to_term_block_rows p bg_color screen_width img_width padding_w ys out_lines =
       img_to_term_block_rows q bg_color screen_width img_width padding_w ys out_lines"
proof (induction ys arbitrary: out_lines)
  case Nil
  then show ?case by simp
next
  case (Cons y ys)
  then have "img_to_term_block_row p bg_color screen_width img_width padding_w y =
      img_to_term_block_row q bg_color screen_width img_width padding_w y"
    by (simp add: img_to_term_block_row_def
        img_to_term_block_cells_cong[of "py_range img_width" p y q])
  with Cons show ?case by (simp split: sum.splits)
qed

lemma img_to_term_block_cong:
  "\<forall>y\<in>set (range_step 0 (img_height - 1) 2). \<forall>x\<in>set (py_range img_width).
      pixel_at p x y = pixel_at q x y \<and> pixel_at p x (y + 1) = pixel_at q x (y + 1)
   \<Longrightarrow> img_to_term_block p bg_color screen_width screen_height img_width img_height =
       img_to_term_block q bg_color screen_width screen_height img_width img_height"
  by (simp add: img_to_term_block_def img_to_term_block_lines_def
      img_to_term_block_rows_cong[of "range_step 0 (img_height - 1) 2" img_width p q])

lemma block_rows_in_bounds:
  "y \<in> set (range_step 0 (img_height - 1) 2) \<Longrightarrow> 0 \<le> y \<and> y + 1 < img_height \<and> even y"
  by (auto simp: block_rows_index set_py_range)

lemma pixel_at_butlast:
  "y < int (length rows) \<Longrightarrow> pixel_at (rows @ [r]) x y = pixel_at rows x y"
  by (auto simp: pixel_at_def nth_append)

lemma pairs_upto: "concat (map (\<lambda>k. [2 * int k, 2 * int k + 1]) [0 ..< m]) = map int [0 ..< 2 * m]"
  by (induction m) auto

lemma block_rows_consumed:
  "concat (map (\<lambda>y. [y, y + 1]) (range_step 0 (img_height - 1) 2)) =
   py_range (if even img_height then img_height else img_height - 1)"
proof -
  have "concat (map (\<lambda>y. [y, y + 1]) (range_step 0 (img_height - 1) 2)) =
      map int [0 ..< 2 * nat (img_height div 2)]"
    by (simp add: block_rows_index py_range_def comp_def pairs_upto)
  moreover have "2 * nat (img_height div 2) =
      nat (if even img_height then img_height else img_height - 1)"
    by (cases "0 \<le> img_height") (auto elim!: evenE oddE)
  ultimately show ?thesis by (simp add: py_range_def)
qed

lemma example_block_pairs:
  "img_to_term_block_lines [[1, 2], [3, 4], [5, 6]] 0 2 2 2 3 =
   Inr [fg 17 @ bg 19 @ half_block @ fg 18 @ bg 20 @ half_block @ RESET, padding_line 0 2]"
  by (simp add: img_to_term_block_lines_iff block_ok_def block_row_ok_def Let_def
      range_step.simps py_range_def upt_conv_Cons readable_def block_row_text_def
      block_cell_of_def left_padding_def right_padding_def)

text \<open>
  Claim C5. The row loop of \<open>img_to_term_block\<close> ranges over \<open>y = 0, 2, 4, ...\<close>, one \<open>y\<close>
  for each of the \<open>img_height // 2\<close> pairs, and every pair \<open>(y, y + 1)\<close> lies inside the
  image height. Taken in order the pairs are the source rows \<open>0, 1, ..., img_height - 1\<close>,
  each once, when the height is even, and all rows but the last when it is odd. The lines of
  a call are the top padding, then one content row for each \<open>k\<close> below \<open>img_height // 2\<close>, in
  order, then the bottom padding; the cells of the content row \<open>k\<close> are those of the pixels of
  source row \<open>2 * k\<close> (foreground) paired with the pixels of source row \<open>2 * k + 1\<close>
  (background), and of no other row. For an odd height the last row contributes nothing: the
  call returns the same on the image without that row. No read fails on an image with
  \<open>img_height\<close> rows of at least \<open>img_width\<close> pixels, whatever the parity of the height.
\<close>

theorem block_rows_paired:
  "range_step 0 (img_height - 1) 2 = map (\<lambda>k. 2 * k) (py_range (img_height div 2)) \<and>
   (\<forall>y\<in>set (range_step 0 (img_height - 1) 2). 0 \<le> y \<and> y + 1 < img_height) \<and>
   concat (map (\<lambda>y. [y, y + 1]) (range_step 0 (img_height - 1) 2)) =
     py_range (if even img_height then img_height else img_height - 1) \<and>
   (odd img_height \<and> int (length rows) = img_height - 1 \<longrightarrow>
      img_to_term_block (rows @ [last_row]) bg_color screen_width screen_height img_width
        img_height =
      img_to_term_block rows bg_color screen_width screen_height img_width img_height) \<and>
   (int (length pixels) = img_height \<and> (\<forall>row\<in>set pixels. img_width \<le> int (length row)) \<longrightarrow>
      (\<exists>text. img_to_term_block pixels bg_color screen_width screen_height img_width img_height
         = Inr text)) \<and>
   (img_to_term_block_lines pixels bg_color screen_width screen_height img_width img_height
      = Inr out_lines_block \<longrightarrow>
    out_lines_block =
      replicate (nat ((screen_height - img_height div 2) div 2))
        (padding_line bg_color screen_width) @
      map (\<lambda>k. left_padding bg_color ((screen_width - img_width) div 2) @
                block_cells_text (- 1) (- 1)
                  (zip (map (\<lambda>p. p + 16) (row_pixels pixels img_width (2 * k)))
                       (map (\<lambda>p. p + 16) (row_pixels pixels img_width (2 * k + 1)))) @
                right_padding bg_color screen_width ((screen_width - img_width) div 2 + img_width) @
                RESET)
        (py_range (img_height div 2)) @
      replicate (nat (screen_height -
                      int (nat ((screen_height - img_height div 2) div 2) +
                           nat (img_height div 2))))
        (padding_line bg_color screen_width))"
proof (intro conjI impI ballI)
  show "range_step 0 (img_height - 1) 2 = map (\<lambda>k. 2 * k) (py_range (img_height div 2))"
    by (rule block_rows_index)
next
  fix y assume "y \<in> set (range_step 0 (img_height - 1) 2)"
  then show "0 \<le> y" "y + 1 < img_height" using block_rows_in_bounds by auto
next
  show "concat (map (\<lambda>y. [y, y + 1]) (range_step 0 (img_height - 1) 2)) =
     py_range (if even img_height then img_height else img_height - 1)"
    by (rule block_rows_consumed)
next
  assume a: "odd img_height \<and> int (length rows) = img_height - 1"
  have "pixel_at (rows @ [last_row]) x y = pixel_at rows x y \<and>
        pixel_at (rows @ [last_row]) x (y + 1) = pixel_at rows x (y + 1)"
    if "y \<in> set (range_step 0 (img_height - 1) 2)" for x y
  proof -
    from that have b: "0 \<le> y" "y + 1 < img_height" "even y"
      using block_rows_in_bounds by auto
    with a have "y + 1 \<noteq> img_height - 1" by auto
    with b a have "y + 1 < int (length rows)" by simp
    then show ?thesis by (simp add: pixel_at_butlast)
  qed
  then show "img_to_term_block (rows @ [last_row]) bg_color screen_width screen_height img_width
        img_height =
      img_to_term_block rows bg_color screen_width screen_height img_width img_height"
    by (intro img_to_term_block_cong) blast
next
  assume a: "int (length pixels) = img_height \<and>
    (\<forall>row\<in>set pixels. img_width \<le> int (length row))"
  have "block_ok pixels img_width img_height"
    unfolding block_ok_def block_row_ok_def
  proof (intro ballI)
    fix y x assume y: "y \<in> set (range_step 0 (img_height - 1) 2)"
      and x: "x \<in> set (py_range img_width)"
    from y have b: "0 \<le> y" "y + 1 < img_height" using block_rows_in_bounds by auto
    with a have "pixels ! nat y \<in> set pixels" "pixels ! nat (y + 1) \<in> set pixels"
      by (auto intro!: nth_mem)
    with a have "img_width \<le> int (length (pixels ! nat y))"
      "img_width \<le> int (length (pixels ! nat (y + 1)))" by auto
    with x b a show "readable pixels x y \<and> readable pixels x (y + 1)"
      by (auto simp: readable_def set_py_range)
  qed
  then show "\<exists>text. img_to_term_block pixels bg_color screen_width screen_height img_width
      img_height = Inr text"
    by (simp add: img_to_term_block_Inr_iff img_to_term_block_lines_iff)
next
  assume l: "img_to_term_block_lines pixels bg_color screen_width screen_height img_width
      img_height = Inr out_lines_block"
  then have ok: "block_ok pixels img_width img_height"
    by (simp add: img_to_term_block_lines_iff)
  have n: "length (range_step 0 (img_height - 1) 2) = nat (img_height div 2)"
    by (simp add: block_rows_index length_py_range)
  from l show "out_lines_block =
      replicate (nat ((screen_height - img_height div 2) div 2))
        (padding_line bg_color screen_width) @
      map (\<lambda>k. left_padding bg_color ((screen_width - img_width) div 2) @
                block_cells_text (- 1) (- 1)
                  (zip (map (\<lambda>p. p + 16) (row_pixels pixels img_width (2 * k)))
                       (map (\<lambda>p. p + 16) (row_pixels pixels img_width (2 * k + 1)))) @
                right_padding bg_color screen_width ((screen_width - img_width) div 2 + img_width) @
                RESET)
        (py_range (img_height div 2)) @
      replicate (nat (screen_height -
                      int (nat ((screen_height - img_height div 2) div 2) +
                           nat (img_height div 2))))
        (padding_line bg_color screen_width)"
    unfolding block_rows_of_pairs[OF ok, symmetric]
    by (simp add: img_to_term_block_lines_iff Let_def n)
qed

theorem block_rows_paired_witness:
  "range_step 0 (3 - 1) 2 = [0] \<and> odd (3::int) \<and> int (length [[1, 2], [3, 4 :: int]]) = 3 - 1 \<and>
   img_to_term_block ([[1, 2], [3, 4]] @ [[5, 6]]) 0 2 2 2 3 =
   img_to_term_block [[1, 2], [3, 4]] 0 2 2 2 3 \<and>
   int (length [[1, 2], [3, 4], [5, 6 :: int]]) = 3 \<and>
   (2::int) \<le> int (length [1, 2 :: int]) \<and> (2::int) \<le> int (length [3, 4 :: int]) \<and>
   (2::int) \<le> int (length [5, 6 :: int]) \<and>
   (\<exists>text. img_to_term_block [[1, 2], [3, 4], [5, 6]] 0 2 2 2 3 = Inr text) \<and>
   img_to_term_block_lines [[1, 2], [3, 4], [5, 6]] 0 2 2 2 3 =
     Inr [fg 17 @ bg 19 @ half_block @ fg 18 @ bg 20 @ half_block @ RESET, padding_line 0 2] \<and>
   [fg 17 @ bg 19 @ half_block @ fg 18 @ bg 20 @ half_block @ RESET, padding_line 0 2] =
      replicate (nat ((2 - 3 div 2) div 2)) (padding_line 0 2) @
      map (\<lambda>k. left_padding 0 ((2 - 2) div 2) @
                block_cells_text (- 1) (- 1)
                  (zip (map (\<lambda>p. p + 16) (row_pixels [[1, 2], [3, 4], [5, 6]] 2 (2 * k)))
                       (map (\<lambda>p. p + 16) (row_pixels [[1, 2], [3, 4], [5, 6]] 2 (2 * k + 1)))) @
                right_padding 0 2 ((2 - 2) div 2 + 2) @ RESET)
        (py_range (3 div 2)) @
      replicate (nat (2 - int (nat ((2 - 3 div 2) div 2) + nat (3 div 2)))) (padding_line 0 2)"
proof -
  note t = block_rows_paired[of 3 "[[1, 2], [3, 4]]" "[5, 6]" 0 2 2 2 "[[1, 2], [3, 4], [5, 6]]"
      "[fg 17 @ bg 19 @ half_block @ fg 18 @ bg 20 @ half_block @ RESET, padding_line 0 2]"]
  have r: "range_step 0 (3 - 1) 2 = [0]"
    using t[THEN conjunct1] by (simp add: py_range_def upt_conv_Cons)
  have e: "img_to_term_block ([[1, 2], [3, 4]] @ [[5, 6]]) 0 2 2 2 3 =
      img_to_term_block [[1, 2], [3, 4]] 0 2 2 2 3"
    using t[THEN conjunct2, THEN conjunct2, THEN conjunct2, THEN conjunct1] by simp
  have x: "\<exists>text. img_to_term_block [[1, 2], [3, 4], [5, 6]] 0 2 2 2 3 = Inr text"
    using t[THEN conjunct2, THEN conjunct2, THEN conjunct2, THEN conjunct2, THEN conjunct1]
    by simp
  note p = t[THEN conjunct2, THEN conjunct2, THEN conjunct2, THEN conjunct2, THEN conjunct2,
      THEN mp, OF example_block_pairs]
  show ?thesis
    by (intro conjI r e x example_block_pairs p) simp_all
qed

subsection \<open>The end of every line\<close>
lemma suffix_RESET_padding_line: "suffix RESET (padding_line bg_color screen_width)"
  unfolding padding_line_def by (intro suffix_appendI) simp

lemma suffix_RESET_term_row_text:
  "suffix RESET (term_row_text beyond pixels pixels_gray bg_color ascii_palette ascii_palette_len
     screen_width img_width padding_w y)"
  unfolding term_row_text_def by (intro suffix_appendI) simp

lemma suffix_RESET_block_row_text:
  "suffix RESET (block_row_text pixels bg_color screen_width img_width padding_w y)"
  unfolding block_row_text_def by (intro suffix_appendI) simp

text \<open>
  Claim C7. Every entry of \<open>out_lines\<close>, in both functions, ends with \<open>RESET\<close>, which is
  \<open>ESC[0m\<close>: the top padding lines, the image rows and the bottom padding lines alike. The
  returned text is these lines joined by newlines, so every line of it closes with the reset
  and no colour is active when the next line starts.
\<close>

theorem every_line_ends_with_reset:
  "RESET = [27, 91, 48, 109] \<and>
   (img_to_term_lines beyond pixels pixels_gray bg_color ascii_palette ascii_palette_len screen_width
      screen_height img_width img_height = Inr out_lines \<longrightarrow>
    (\<forall>line\<in>set out_lines. suffix RESET line)) \<and>
   (img_to_term_block_lines pixels bg_color screen_width screen_height img_width img_height
      = Inr out_lines_block \<longrightarrow>
    (\<forall>line\<in>set out_lines_block. suffix RESET line))"
proof (intro conjI impI)
  show "RESET = [27, 91, 48, 109]" by (rule RESET_codes)
next
  assume "img_to_term_lines beyond pixels pixels_gray bg_color ascii_palette ascii_palette_len
      screen_width screen_height img_width img_height = Inr out_lines"
  then show "\<forall>line\<in>set out_lines. suffix RESET line"
    by (auto simp: img_to_term_lines_iff Let_def suffix_RESET_padding_line
        suffix_RESET_term_row_text)
next
  assume "img_to_term_block_lines pixels bg_color screen_width screen_height img_width
      img_height = Inr out_lines_block"
  then show "\<forall>line\<in>set out_lines_block. suffix RESET line"
    by (auto simp: img_to_term_block_lines_iff Let_def suffix_RESET_padding_line
        suffix_RESET_block_row_text)
qed


theorem every_line_ends_with_reset_witness:
  "img_to_term_lines Map.empty [[0]] [[0]] 0 [ascii ''.'', ascii ''#''] 2 3 3 1 1 =
     Inr [padding_line 0 3,
          bg 0 @ ascii '' '' @ fg 16 @ ascii ''.'' @ bg 0 @ ascii '' '' @ RESET,
          padding_line 0 3] \<and>
   suffix RESET (padding_line 0 3) \<and>
   suffix RESET (bg 0 @ ascii '' '' @ fg 16 @ ascii ''.'' @ bg 0 @ ascii '' '' @ RESET) \<and>
   img_to_term_block_lines [[0], [1]] 0 3 3 1 2 =
     Inr [padding_line 0 3,
          bg 0 @ ascii '' '' @ fg 16 @ bg 17 @ half_block @ bg 0 @ ascii '' '' @ RESET,
          padding_line 0 3] \<and>
   suffix RESET (bg 0 @ ascii '' '' @ fg 16 @ bg 17 @ half_block @ bg 0 @ ascii '' '' @ RESET)"
  using every_line_ends_with_reset[where beyond = Map.empty and pixels = "[[0]]"
      and pixels_gray = "[[0]]" and bg_color = 0 and ascii_palette = "[ascii ''.'', ascii ''#'']"
      and ascii_palette_len = 2 and screen_width = 3 and screen_height = 3 and img_width = 1
      and img_height = 1 and out_lines =
      "[padding_line 0 3,
        bg 0 @ ascii '' '' @ fg 16 @ ascii ''.'' @ bg 0 @ ascii '' '' @ RESET,
        padding_line 0 3]"]
    every_line_ends_with_reset[where pixels = "[[0], [1]]" and bg_color = 0
      and screen_width = 3 and screen_height = 3 and img_width = 1 and img_height = 2
      and out_lines_block =
      "[padding_line 0 3,
        bg 0 @ ascii '' '' @ fg 16 @ bg 17 @ half_block @ bg 0 @ ascii '' '' @ RESET,
        padding_line 0 3]"]
    example_term_lines example_block_lines
  by simp

subsection \<open>The characters of the fragments\<close>

lemma str_int_no_ctl [simp]:
  "27 \<notin> set (str_int i)" "10 \<notin> set (str_int i)" "109 \<notin> set (str_int i)"
  using str_int_range[of i] by auto

lemma fg_codes: "fg c = 27 # [91, 51, 56, 59, 53, 59] @ str_int c @ [109]"
  by (simp add: fg_def ESC_def ascii_def)

lemma half_block_codes: "half_block = [9600]"
  by (simp add: half_block_def)

subsection \<open>The visible width of a line\<close>

lemma strip_inside:
  "109 \<notin> set body \<Longrightarrow> strip_escapes True (body @ 109 # rest) = strip_escapes False rest"
  by (induction body) auto

lemma strip_plain:
  "27 \<notin> set s \<Longrightarrow> strip_escapes False (s @ rest) = s @ strip_escapes False rest"
  by (induction s) auto

lemma strip_fg [simp]: "strip_escapes False (fg c @ rest) = strip_escapes False rest"
  using strip_inside[of "[91, 51, 56, 59, 53, 59] @ str_int c" rest]
  by (simp add: fg_codes)

lemma strip_bg [simp]: "strip_escapes False (bg c @ rest) = strip_escapes False rest"
  using strip_inside[of "[91, 52, 56, 59, 53, 59] @ str_int c" rest]
  by (simp add: bg_codes)

lemma strip_RESET [simp]: "strip_escapes False (RESET @ rest) = strip_escapes False rest"
  by (simp add: RESET_codes)

lemma strip_RESET_end [simp]: "strip_escapes False RESET = []"
  by (simp add: RESET_codes)

lemma strip_spaces [simp]:
  "strip_escapes False (replicate n 32 @ rest) = replicate n 32 @ strip_escapes False rest"
  by (rule strip_plain) simp

lemma strip_left_padding:
  "strip_escapes False (left_padding bg_color padding_w @ rest) =
   replicate (nat padding_w) 32 @ strip_escapes False rest"
  by (simp add: left_padding_def spaces_codes)

lemma strip_right_padding:
  "strip_escapes False (right_padding bg_color screen_width visible_len @ rest) =
   replicate (nat (screen_width - visible_len)) 32 @ strip_escapes False rest"
  by (simp add: right_padding_def spaces_codes)

lemma visible_width_padding_line: "visible_width (padding_line bg_color screen_width) = nat screen_width"
  using strip_spaces[of "nat screen_width" RESET]
  by (simp add: visible_width_def padding_line_def spaces_codes)

lemma strip_cells_text:
  "\<forall>cg\<in>set cgs. 27 \<notin> set (snd cg) \<Longrightarrow>
   strip_escapes False (cells_text cur cgs @ rest) =
   concat (map snd cgs) @ strip_escapes False rest"
  by (induction cgs arbitrary: cur) (auto simp: strip_plain)

lemma strip_block_cells_text:
  "strip_escapes False (block_cells_text cur_fg cur_bg cs @ rest) =
   replicate (length cs) 9600 @ strip_escapes False rest"
  by (induction cs arbitrary: cur_fg cur_bg) (auto simp: half_block_codes)

lemma length_concat_singletons:
  "\<forall>g\<in>set gs. length g = 1 \<Longrightarrow> length (concat gs) = length gs"
  by (induction gs) auto


lemma cell_of_read:
  assumes "cell_ok beyond pixels pixels_gray ascii_palette ascii_palette_len y x"
  shows "pixel_at pixels_gray x y = Inr (pixels_gray ! nat y ! nat x) \<and>
         ramp_at beyond ascii_palette (ramp_index (pixels_gray ! nat y ! nat x) ascii_palette_len)
           = Inr (snd (cell_of beyond pixels pixels_gray ascii_palette ascii_palette_len y x))"
proof -
  from assms have "\<not> isl (ramp_at beyond ascii_palette
      (ramp_index (pixels_gray ! nat y ! nat x) ascii_palette_len))"
    by (simp add: cell_ok_def)
  from ramp_at_glyph_read[OF this] assms show ?thesis
    by (simp add: cell_ok_def cell_of_def pixel_at_readable)
qed

lemma row_glyphs:
  assumes ok: "row_ok beyond pixels pixels_gray ascii_palette ascii_palette_len img_width y"
    and y: "0 \<le> y" "y < img_height"
    and reads: "\<forall>x y gray_val glyph.
        0 \<le> x \<and> x < img_width \<and> 0 \<le> y \<and> y < img_height \<and>
        pixel_at pixels_gray x y = Inr gray_val \<and>
        ramp_at beyond ascii_palette (ramp_index gray_val ascii_palette_len) = Inr glyph \<longrightarrow>
        P glyph"
  shows "\<forall>cg\<in>set (map (cell_of beyond pixels pixels_gray ascii_palette ascii_palette_len y)
                    (py_range img_width)). P (snd cg)"
proof -
  have "P (snd (cell_of beyond pixels pixels_gray ascii_palette ascii_palette_len y x))"
    if x: "x \<in> set (py_range img_width)" for x
  proof -
    from ok x have "cell_ok beyond pixels pixels_gray ascii_palette ascii_palette_len y x"
      by (simp add: row_ok_def)
    note r = cell_of_read[OF this]
    from x have "0 \<le> x \<and> x < img_width" by (simp add: set_py_range)
    with y r reads show ?thesis by blast
  qed
  then show ?thesis by simp
qed

lemma visible_width_term_row_text:
  assumes glyphs: "\<forall>cg\<in>set (map (cell_of beyond pixels pixels_gray ascii_palette
        ascii_palette_len y) (py_range img_width)). length (snd cg) = 1 \<and> snd cg \<noteq> [27]"
    and geo: "0 \<le> padding_w" "0 \<le> img_width" "padding_w + img_width \<le> screen_width"
  shows "visible_width (term_row_text beyond pixels pixels_gray bg_color ascii_palette
           ascii_palette_len screen_width img_width padding_w y) = nat screen_width"
proof -
  let ?cgs = "map (cell_of beyond pixels pixels_gray ascii_palette ascii_palette_len y)
                (py_range img_width)"
  have one: "length (snd cg) = 1 \<and> 27 \<notin> set (snd cg)" if "cg \<in> set ?cgs" for cg
  proof -
    from glyphs that have "length (snd cg) = 1" "snd cg \<noteq> [27]" by blast+
    then show ?thesis by (cases "snd cg") auto
  qed
  then have plain: "\<forall>cg\<in>set ?cgs. 27 \<notin> set (snd cg)" by blast
  from one have "\<forall>g\<in>set (map snd ?cgs). length g = 1" by auto
  then have len: "length (concat (map snd ?cgs)) = nat img_width"
    by (simp add: length_concat_singletons length_py_range)
  have "strip_escapes False (term_row_text beyond pixels pixels_gray bg_color ascii_palette
           ascii_palette_len screen_width img_width padding_w y) =
        replicate (nat padding_w) 32 @ concat (map snd ?cgs) @
        replicate (nat (screen_width - (padding_w + img_width))) 32"
    by (simp only: term_row_text_def strip_left_padding strip_cells_text[OF plain]
        strip_right_padding strip_RESET_end append_Nil2)
  with len geo show ?thesis by (simp add: visible_width_def)
qed

lemma visible_width_block_row_text:
  assumes geo: "0 \<le> padding_w" "0 \<le> img_width" "padding_w + img_width \<le> screen_width"
  shows "visible_width (block_row_text pixels bg_color screen_width img_width padding_w y)
         = nat screen_width"
proof -
  have "strip_escapes False (block_row_text pixels bg_color screen_width img_width padding_w y) =
        replicate (nat padding_w) 32 @
        replicate (length (map (block_cell_of pixels y) (py_range img_width))) 9600 @
        replicate (nat (screen_width - (padding_w + img_width))) 32"
    by (simp only: block_row_text_def strip_left_padding strip_block_cells_text
        strip_right_padding strip_RESET_end append_Nil2)
  with geo show ?thesis by (simp add: visible_width_def length_py_range)
qed

lemma padding_w_fits:
  "0 \<le> img_width \<Longrightarrow> img_width \<le> screen_width \<Longrightarrow>
   0 \<le> (screen_width - img_width) div 2 \<and>
   (screen_width - img_width) div 2 + img_width \<le> (screen_width :: int)"
  by auto


lemma example_stray_lines:
  "img_to_term_lines (Map.empty(1 \<mapsto> ascii ''stray text read'')) [[0]] [[255]] 0 [ascii ''#''] 1
     1 1 1 1 =
   Inr [fg 16 @ ascii ''stray text read'' @ RESET]"
  by (simp add: img_to_term_lines_iff term_ok_def row_ok_def cell_ok_def Let_def
      py_range_def upt_conv_Cons readable_def term_row_text_def cell_of_def glyph_read_def
      ramp_at_def ramp_index_def c_int_def left_padding_def right_padding_def py_repeat_def)

text \<open>
  Claim C2, as the code has it. With \<open>0 \<le> img_width \<le> screen_width\<close>, every entry of
  \<open>out_lines\<close> of \<open>img_to_term_block\<close> has exactly \<open>screen_width\<close> characters once its escape
  sequences are removed, and so has every entry of \<open>out_lines\<close> of \<open>img_to_term\<close> when every
  glyph that the read of line 50 yields for a pixel of the image is a single character other
  than ESC: a padding line is \<open>screen_width\<close> spaces, an image row is \<open>padding_w\<close> spaces,
  \<open>img_width\<close> cells and the spaces of the right padding. The condition on the glyphs cannot
  be dropped: a read outside the ramp, as at luminance 255 with \<open>ascii_palette_len\<close> the length
  of the ramp, may yield a longer text, and the row is then wider than the screen.
\<close>

theorem every_line_has_screen_width:
  assumes "0 \<le> img_width" "img_width \<le> screen_width"
  shows
  "(img_to_term_lines beyond pixels pixels_gray bg_color ascii_palette ascii_palette_len
      screen_width screen_height img_width img_height = Inr out_lines \<and>
    (\<forall>x y gray_val glyph.
        0 \<le> x \<and> x < img_width \<and> 0 \<le> y \<and> y < img_height \<and>
        pixel_at pixels_gray x y = Inr gray_val \<and>
        ramp_at beyond ascii_palette (ramp_index gray_val ascii_palette_len) = Inr glyph \<longrightarrow>
        length glyph = 1 \<and> glyph \<noteq> [27]) \<longrightarrow>
    (\<forall>line\<in>set out_lines. visible_width line = nat screen_width)) \<and>
   (img_to_term_block_lines pixels bg_color screen_width screen_height img_width img_height
      = Inr out_lines_block \<longrightarrow>
    (\<forall>line\<in>set out_lines_block. visible_width line = nat screen_width))"
proof (intro conjI impI)
  note pw = padding_w_fits[OF assms(1) assms(2)]
  assume a: "img_to_term_lines beyond pixels pixels_gray bg_color ascii_palette ascii_palette_len
      screen_width screen_height img_width img_height = Inr out_lines \<and>
    (\<forall>x y gray_val glyph.
        0 \<le> x \<and> x < img_width \<and> 0 \<le> y \<and> y < img_height \<and>
        pixel_at pixels_gray x y = Inr gray_val \<and>
        ramp_at beyond ascii_palette (ramp_index gray_val ascii_palette_len) = Inr glyph \<longrightarrow>
        length glyph = 1 \<and> glyph \<noteq> [27])"
  then have ok: "term_ok beyond pixels pixels_gray ascii_palette ascii_palette_len img_width
      img_height"
    by (simp add: img_to_term_lines_iff)
  have row: "visible_width (term_row_text beyond pixels pixels_gray bg_color ascii_palette
      ascii_palette_len screen_width img_width ((screen_width - img_width) div 2) y)
      = nat screen_width" if y: "y \<in> set (py_range img_height)" for y
  proof -
    from ok y have r: "row_ok beyond pixels pixels_gray ascii_palette ascii_palette_len
        img_width y"
      by (simp add: term_ok_def)
    from y have b: "0 \<le> y" "y < img_height" by (simp_all add: set_py_range)
    from a have reads: "\<forall>x y gray_val glyph.
        0 \<le> x \<and> x < img_width \<and> 0 \<le> y \<and> y < img_height \<and>
        pixel_at pixels_gray x y = Inr gray_val \<and>
        ramp_at beyond ascii_palette (ramp_index gray_val ascii_palette_len) = Inr glyph \<longrightarrow>
        length glyph = 1 \<and> glyph \<noteq> [27]"
      by (rule conjunct2)
    note g = row_glyphs[where P = "\<lambda>glyph. length glyph = 1 \<and> glyph \<noteq> [27]", OF r b reads]
    from visible_width_term_row_text[OF g pw[THEN conjunct1] assms(1) pw[THEN conjunct2]]
    show ?thesis .
  qed
  from a have "out_lines =
      (let top = replicate (nat ((screen_height - img_height) div 2))
                   (padding_line bg_color screen_width);
           rows = map (term_row_text beyond pixels pixels_gray bg_color ascii_palette
                         ascii_palette_len screen_width img_width
                         ((screen_width - img_width) div 2))
                    (py_range img_height)
       in top @ rows @
          replicate (nat (screen_height - int (length (top @ rows))))
            (padding_line bg_color screen_width))"
    by (simp add: img_to_term_lines_iff)
  with row show "\<forall>line\<in>set out_lines. visible_width line = nat screen_width"
    by (auto simp: Let_def visible_width_padding_line)
next
  note pw = padding_w_fits[OF assms(1) assms(2)]
  assume "img_to_term_block_lines pixels bg_color screen_width screen_height img_width
      img_height = Inr out_lines_block"
  then show "\<forall>line\<in>set out_lines_block. visible_width line = nat screen_width"
    using pw assms
    by (auto simp: img_to_term_block_lines_iff Let_def visible_width_padding_line
        visible_width_block_row_text)
qed

theorem every_line_has_screen_width_witness:
  "(0::int) \<le> 1 \<and> (1::int) \<le> 3 \<and>
   img_to_term_lines Map.empty [[0]] [[0]] 0 [ascii ''.'', ascii ''#''] 2 3 3 1 1 =
     Inr [padding_line 0 3,
          bg 0 @ ascii '' '' @ fg 16 @ ascii ''.'' @ bg 0 @ ascii '' '' @ RESET,
          padding_line 0 3] \<and>
   pixel_at [[0]] 0 0 = Inr 0 \<and>
   ramp_at Map.empty [ascii ''.'', ascii ''#''] (ramp_index 0 2) = Inr (ascii ''.'') \<and>
   length (ascii ''.'') = 1 \<and> ascii ''.'' \<noteq> [27] \<and>
   visible_width (padding_line 0 3) = nat 3 \<and>
   visible_width (bg 0 @ ascii '' '' @ fg 16 @ ascii ''.'' @ bg 0 @ ascii '' '' @ RESET) = nat 3 \<and>
   img_to_term_block_lines [[0], [1]] 0 3 3 1 2 =
     Inr [padding_line 0 3,
          bg 0 @ ascii '' '' @ fg 16 @ bg 17 @ half_block @ bg 0 @ ascii '' '' @ RESET,
          padding_line 0 3] \<and>
   visible_width (bg 0 @ ascii '' '' @ fg 16 @ bg 17 @ half_block @ bg 0 @ ascii '' '' @ RESET)
     = nat 3"
proof -
  have g: "(0::int) \<le> 1" "(1::int) \<le> 3" by simp_all
  have p: "pixel_at [[0]] 0 0 = Inr 0"
    by (simp add: pixel_at_def)
  have i: "ramp_at Map.empty [ascii ''.'', ascii ''#''] (ramp_index 0 2) = Inr (ascii ''.'')"
    by (simp add: ramp_at_def ramp_index_def c_int_def)
  have r: "length (ascii ''.'') = 1" "ascii ''.'' \<noteq> [27]"
    by (simp_all add: ascii_def)
  have reads: "\<forall>x y gray_val glyph.
        0 \<le> x \<and> x < 1 \<and> 0 \<le> y \<and> y < 1 \<and>
        pixel_at [[0]] x y = Inr gray_val \<and>
        ramp_at Map.empty [ascii ''.'', ascii ''#''] (ramp_index gray_val 2) = Inr glyph \<longrightarrow>
        length glyph = 1 \<and> glyph \<noteq> [27]"
  proof (intro allI impI)
    fix x y :: int and gray_val glyph
    assume h: "0 \<le> x \<and> x < 1 \<and> 0 \<le> y \<and> y < 1 \<and>
        pixel_at [[0]] x y = Inr gray_val \<and>
        ramp_at Map.empty [ascii ''.'', ascii ''#''] (ramp_index gray_val 2) = Inr glyph"
    then have "x = 0" "y = 0" by simp_all
    with h p have "gray_val = 0" by simp
    with h i have "glyph = ascii ''.''" by simp
    with r show "length glyph = 1 \<and> glyph \<noteq> [27]" by simp
  qed
  note a = every_line_has_screen_width[OF g, THEN conjunct1, THEN mp,
      OF conjI[OF example_term_lines reads]]
  note b = every_line_has_screen_width[OF g, THEN conjunct2, THEN mp, OF example_block_lines]
  have a1: "visible_width (padding_line 0 3) = nat 3"
    and a2: "visible_width
      (bg 0 @ ascii '' '' @ fg 16 @ ascii ''.'' @ bg 0 @ ascii '' '' @ RESET) = nat 3"
    using a by simp_all
  have b2: "visible_width
      (bg 0 @ ascii '' '' @ fg 16 @ bg 17 @ half_block @ bg 0 @ ascii '' '' @ RESET) = nat 3"
    using b by simp
  show ?thesis
    by (intro conjI) (fact g p i r example_term_lines a1 a2 example_block_lines b2)+
qed

theorem every_line_has_screen_width_counterexample:
  "(0::int) \<le> 1 \<and> (1::int) \<le> 1 \<and> length (ascii ''#'') = 1 \<and> ascii ''#'' \<noteq> [27] \<and>
   img_to_term_lines (Map.empty(1 \<mapsto> ascii ''stray text read'')) [[0]] [[255]] 0 [ascii ''#''] 1
     1 1 1 1 =
     Inr [fg 16 @ ascii ''stray text read'' @ RESET] \<and>
   visible_width (fg 16 @ ascii ''stray text read'' @ RESET) = 15 \<and>
   visible_width (fg 16 @ ascii ''stray text read'' @ RESET) \<noteq> nat 1"
proof -
  have v: "visible_width (fg 16 @ ascii ''stray text read'' @ RESET) = 15"
    using strip_plain[of "ascii ''stray text read''" RESET]
    by (simp add: visible_width_def ascii_def)
  then have n: "visible_width (fg 16 @ ascii ''stray text read'' @ RESET) \<noteq> nat 1"
    by simp
  have r: "(0::int) \<le> 1" "(1::int) \<le> 1" "length (ascii ''#'') = 1" "ascii ''#'' \<noteq> [27]"
    by (simp_all add: ascii_def)
  show ?thesis
    by (intro conjI) (fact r example_stray_lines v n)+
qed

subsection \<open>Foreground escapes and runs of colours\<close>

lemma count_fg_plain: "27 \<notin> set s \<Longrightarrow> count_fg (s @ t) = count_fg t"
  by (induction s) (auto simp: ESC_def)

lemma count_fg_fg [simp]: "count_fg (fg c @ t) = Suc (count_fg t)"
  using count_fg_plain[of "[91, 51, 56, 59, 53, 59] @ str_int c @ [109]" t]
  by (simp add: fg_codes ESC_def ascii_def)

lemma count_fg_bg [simp]: "count_fg (bg c @ t) = count_fg t"
  using count_fg_plain[of "[91, 52, 56, 59, 53, 59] @ str_int c @ [109]" t]
  by (simp add: bg_codes ESC_def ascii_def)

lemma count_fg_RESET [simp]: "count_fg RESET = 0"
  by (simp add: RESET_codes ESC_def ascii_def)

lemma count_fg_left_padding [simp]:
  "count_fg (left_padding bg_color padding_w @ t) = count_fg t"
  by (simp add: left_padding_def spaces_codes count_fg_plain)

lemma count_fg_right_padding [simp]:
  "count_fg (right_padding bg_color screen_width visible_len @ t) = count_fg t"
  by (simp add: right_padding_def spaces_codes count_fg_plain)

lemma count_fg_cells_text:
  "\<forall>cg\<in>set cgs. 27 \<notin> set (snd cg) \<Longrightarrow>
   count_fg (cells_text cur cgs @ t) = changes cur (map fst cgs) + count_fg t"
  by (induction cgs arbitrary: cur) (auto simp: count_fg_plain)

lemma count_fg_block_cells_text:
  "count_fg (block_cells_text cur_fg cur_bg cs @ t) = changes cur_fg (map fst cs) + count_fg t"
  by (induction cs arbitrary: cur_fg cur_bg)
     (auto simp: half_block_codes count_fg_plain[of "[9600]", simplified])

lemma runs_Cons_changes: "runs (c # cs) = Suc (changes c cs)"
  by (induction cs arbitrary: c) auto

lemma changes_runs: "cs = [] \<or> hd cs \<noteq> cur \<Longrightarrow> changes cur cs = runs cs"
  by (cases cs) (auto simp: runs_Cons_changes)

lemma ramp_at_source:
  "ramp_at beyond ascii_palette i = Inr glyph \<Longrightarrow>
   glyph \<in> set ascii_palette \<or> beyond i = Some glyph"
  by (auto simp: ramp_at_def split: if_splits option.splits)

lemma row_glyphs_from:
  assumes ok: "row_ok beyond pixels pixels_gray ascii_palette ascii_palette_len img_width y"
    and glyphs: "\<forall>glyph\<in>set ascii_palette. P glyph"
    and strays: "\<forall>i glyph. beyond i = Some glyph \<longrightarrow> P glyph"
  shows "\<forall>cg\<in>set (map (cell_of beyond pixels pixels_gray ascii_palette ascii_palette_len y)
                    (py_range img_width)). P (snd cg)"
proof -
  have "P (snd (cell_of beyond pixels pixels_gray ascii_palette ascii_palette_len y x))"
    if x: "x \<in> set (py_range img_width)" for x
  proof -
    from ok x have "cell_ok beyond pixels pixels_gray ascii_palette ascii_palette_len y x"
      by (simp add: row_ok_def)
    from ramp_at_source[OF cell_of_read[OF this, THEN conjunct2]] glyphs strays
    show ?thesis by blast
  qed
  then show ?thesis by simp
qed

lemma cells_text_starts_with_fg:
  "cgs \<noteq> [] \<Longrightarrow> fst (hd cgs) \<noteq> cur \<Longrightarrow> prefix (fg (fst (hd cgs))) (cells_text cur cgs)"
  by (cases cgs) auto

lemma block_cells_text_starts_with_fg:
  "cs \<noteq> [] \<Longrightarrow> fst (hd cs) \<noteq> cur_fg \<Longrightarrow>
   prefix (fg (fst (hd cs))) (block_cells_text cur_fg cur_bg cs)"
  by (cases cs) auto

lemma count_fg_term_row_text:
  assumes ok: "row_ok beyond pixels pixels_gray ascii_palette ascii_palette_len img_width y"
    and glyphs: "\<forall>glyph\<in>set ascii_palette. 27 \<notin> set glyph"
    and strays: "\<forall>i glyph. beyond i = Some glyph \<longrightarrow> 27 \<notin> set glyph"
    and unset: "\<forall>p\<in>set (row_pixels pixels img_width y). p + 16 \<noteq> - 1"
  shows "count_fg (term_row_text beyond pixels pixels_gray bg_color ascii_palette ascii_palette_len
           screen_width img_width padding_w y) =
         runs (map (\<lambda>p. p + 16) (row_pixels pixels img_width y))"
    and "0 < img_width \<Longrightarrow>
         prefix (left_padding bg_color padding_w @ fg (hd (row_pixels pixels img_width y) + 16))
           (term_row_text beyond pixels pixels_gray bg_color ascii_palette ascii_palette_len
              screen_width img_width padding_w y)"
proof -
  let ?cgs = "map (cell_of beyond pixels pixels_gray ascii_palette ascii_palette_len y)
                (py_range img_width)"
  let ?colors = "map (\<lambda>p. p + 16) (row_pixels pixels img_width y)"
  have col: "map fst ?cgs = ?colors" by (rule term_row_colors[OF ok])
  have plain: "\<forall>cg\<in>set ?cgs. 27 \<notin> set (snd cg)"
    by (rule row_glyphs_from[OF ok glyphs strays])
  have first: "?colors = [] \<or> hd ?colors \<noteq> - 1"
    using unset by (cases "row_pixels pixels img_width y") auto
  have "count_fg (term_row_text beyond pixels pixels_gray bg_color ascii_palette ascii_palette_len
           screen_width img_width padding_w y) = changes (- 1) (map fst ?cgs)"
    by (simp add: term_row_text_def count_fg_cells_text[OF plain])
  with col first show "count_fg (term_row_text beyond pixels pixels_gray bg_color ascii_palette
           ascii_palette_len screen_width img_width padding_w y) = runs ?colors"
    by (simp add: changes_runs)
  assume "0 < img_width"
  then have ne: "?cgs \<noteq> []" by (simp add: py_range_pos)
  with col have ne': "row_pixels pixels img_width y \<noteq> []" by auto
  from ne col have "fst (hd ?cgs) = hd ?colors" by (metis hd_map)
  with ne' have h: "fst (hd ?cgs) = hd (row_pixels pixels img_width y) + 16"
    by (simp add: hd_map)
  with unset ne' have "fst (hd ?cgs) \<noteq> - 1" by (metis hd_in_set)
  from cells_text_starts_with_fg[OF ne this] h
  show "prefix (left_padding bg_color padding_w @ fg (hd (row_pixels pixels img_width y) + 16))
           (term_row_text beyond pixels pixels_gray bg_color ascii_palette ascii_palette_len
              screen_width img_width padding_w y)"
    by (simp add: term_row_text_def prefix_def) (metis append.assoc)
qed

lemma count_fg_block_row_text:
  assumes ok: "block_row_ok pixels img_width y"
    and unset: "\<forall>p\<in>set (row_pixels pixels img_width y). p + 16 \<noteq> - 1"
  shows "count_fg (block_row_text pixels bg_color screen_width img_width padding_w y) =
         runs (map (\<lambda>p. p + 16) (row_pixels pixels img_width y))"
    and "0 < img_width \<Longrightarrow>
         prefix (left_padding bg_color padding_w @ fg (hd (row_pixels pixels img_width y) + 16))
           (block_row_text pixels bg_color screen_width img_width padding_w y)"
proof -
  let ?cs = "map (block_cell_of pixels y) (py_range img_width)"
  let ?colors = "map (\<lambda>p. p + 16) (row_pixels pixels img_width y)"
  have col: "map fst ?cs = ?colors" by (rule block_row_colors[OF ok])
  have first: "?colors = [] \<or> hd ?colors \<noteq> - 1"
    using unset by (cases "row_pixels pixels img_width y") auto
  have "count_fg (block_row_text pixels bg_color screen_width img_width padding_w y) =
      changes (- 1) (map fst ?cs)"
    by (simp add: block_row_text_def count_fg_block_cells_text)
  with col first show "count_fg (block_row_text pixels bg_color screen_width img_width
      padding_w y) = runs ?colors"
    by (simp add: changes_runs)
  assume "0 < img_width"
  then have ne: "?cs \<noteq> []" by (simp add: py_range_pos)
  with col have ne': "row_pixels pixels img_width y \<noteq> []" by auto
  from ne col have "fst (hd ?cs) = hd ?colors" by (metis hd_map)
  with ne' have h: "fst (hd ?cs) = hd (row_pixels pixels img_width y) + 16"
    by (simp add: hd_map)
  with unset ne' have "fst (hd ?cs) \<noteq> - 1" by (metis hd_in_set)
  from block_cells_text_starts_with_fg[OF ne this] h
  show "prefix (left_padding bg_color padding_w @ fg (hd (row_pixels pixels img_width y) + 16))
           (block_row_text pixels bg_color screen_width img_width padding_w y)"
    by (simp add: block_row_text_def prefix_def) (metis append.assoc)
qed


lemma example_term_runs:
  "img_to_term_lines Map.empty [[5, 7], [7, 7]] [[0, 0], [0, 0]] 0 [ascii ''.'', ascii ''#''] 2
     2 2 2 2 =
   Inr [fg 21 @ ascii ''.'' @ fg 23 @ ascii ''.'' @ RESET, fg 23 @ ascii ''..'' @ RESET]"
  by (simp add: img_to_term_lines_iff term_ok_def row_ok_def cell_ok_def Let_def
      py_range_def upt_conv_Cons readable_def term_row_text_def cell_of_def glyph_read_def
      ramp_at_def ramp_index_def c_int_def left_padding_def right_padding_def ascii_def)

lemma example_block_runs:
  "img_to_term_block_lines [[5, 5], [1, 1]] 0 2 1 2 2 =
   Inr [fg 21 @ bg 17 @ half_block @ half_block @ RESET]"
  by (simp add: img_to_term_block_lines_iff block_ok_def block_row_ok_def Let_def
      range_step.simps py_range_def upt_conv_Cons readable_def block_row_text_def
      block_cell_of_def left_padding_def right_padding_def)

text \<open>
  Claim C4. In every image row of either function the number of foreground escapes is the
  number of maximal runs of equal values in the colours of the row, the pixels of the row
  plus 16 (for \<open>img_to_term_block\<close> the row is the upper row \<open>2 * k\<close> of the pair). The
  tracker \<open>current_fg\<close> is set to \<open>- 1\<close> when a row starts, so the row begins, after its left
  padding, with the foreground escape of its first pixel, whatever the row before ended
  with. The colours are those of palette indexes: none of them is the unset value \<open>- 1\<close>.
  The glyphs of the ramp contain no ESC character, and neither does a text that a read
  outside the ramp yields.
\<close>

theorem fg_escapes_are_colour_runs:
  assumes "\<forall>glyph\<in>set ascii_palette. 27 \<notin> set glyph"
    and "\<forall>i glyph. beyond i = Some glyph \<longrightarrow> 27 \<notin> set glyph"
  shows
  "(img_to_term_lines beyond pixels pixels_gray bg_color ascii_palette ascii_palette_len screen_width
      screen_height img_width img_height = Inr out_lines \<and>
    0 \<le> y \<and> y < img_height \<and> (\<forall>p\<in>set (row_pixels pixels img_width y). p + 16 \<noteq> - 1) \<longrightarrow>
    count_fg (out_lines ! (nat ((screen_height - img_height) div 2) + nat y)) =
      runs (map (\<lambda>p. p + 16) (row_pixels pixels img_width y)) \<and>
    (0 < img_width \<longrightarrow>
     prefix ((if 0 < (screen_width - img_width) div 2
              then bg bg_color @ replicate (nat ((screen_width - img_width) div 2)) 32
              else []) @
             fg (hd (row_pixels pixels img_width y) + 16))
       (out_lines ! (nat ((screen_height - img_height) div 2) + nat y)))) \<and>
   (img_to_term_block_lines pixels bg_color screen_width screen_height img_width img_height
      = Inr out_lines_block \<and>
    0 \<le> k \<and> k < img_height div 2 \<and>
    (\<forall>p\<in>set (row_pixels pixels img_width (2 * k)). p + 16 \<noteq> - 1) \<longrightarrow>
    count_fg (out_lines_block ! (nat ((screen_height - img_height div 2) div 2) + nat k)) =
      runs (map (\<lambda>p. p + 16) (row_pixels pixels img_width (2 * k))) \<and>
    (0 < img_width \<longrightarrow>
     prefix ((if 0 < (screen_width - img_width) div 2
              then bg bg_color @ replicate (nat ((screen_width - img_width) div 2)) 32
              else []) @
             fg (hd (row_pixels pixels img_width (2 * k)) + 16))
       (out_lines_block ! (nat ((screen_height - img_height div 2) div 2) + nat k))))"
proof (intro conjI impI)
  have lp: "(if 0 < padding_w then bg bg_color @ replicate (nat padding_w) 32 else []) =
      left_padding bg_color padding_w" for padding_w
    by (simp add: left_padding_def spaces_codes)
  assume a: "img_to_term_lines beyond pixels pixels_gray bg_color ascii_palette ascii_palette_len
      screen_width screen_height img_width img_height = Inr out_lines \<and>
    0 \<le> y \<and> y < img_height \<and> (\<forall>p\<in>set (row_pixels pixels img_width y). p + 16 \<noteq> - 1)"
  then have l: "img_to_term_lines beyond pixels pixels_gray bg_color ascii_palette ascii_palette_len
      screen_width screen_height img_width img_height = Inr out_lines"
    and y: "0 \<le> y" "y < img_height"
    and unset: "\<forall>p\<in>set (row_pixels pixels img_width y). p + 16 \<noteq> - 1"
    by simp_all
  note tc = term_content_row[OF l y]
  note r = tc[THEN conjunct1] and ok = tc[THEN conjunct2]
  show "count_fg (out_lines ! (nat ((screen_height - img_height) div 2) + nat y)) =
      runs (map (\<lambda>p. p + 16) (row_pixels pixels img_width y))"
    by (simp only: r count_fg_term_row_text(1)[OF ok assms unset])
  assume "0 < img_width"
  from count_fg_term_row_text(2)[OF ok assms unset this]
  show "prefix ((if 0 < (screen_width - img_width) div 2
              then bg bg_color @ replicate (nat ((screen_width - img_width) div 2)) 32
              else []) @
             fg (hd (row_pixels pixels img_width y) + 16))
       (out_lines ! (nat ((screen_height - img_height) div 2) + nat y))"
    by (simp only: r lp)
next
  have lp: "(if 0 < padding_w then bg bg_color @ replicate (nat padding_w) 32 else []) =
      left_padding bg_color padding_w" for padding_w
    by (simp add: left_padding_def spaces_codes)
  assume a: "img_to_term_block_lines pixels bg_color screen_width screen_height img_width
      img_height = Inr out_lines_block \<and>
    0 \<le> k \<and> k < img_height div 2 \<and>
    (\<forall>p\<in>set (row_pixels pixels img_width (2 * k)). p + 16 \<noteq> - 1)"
  then have l: "img_to_term_block_lines pixels bg_color screen_width screen_height img_width
      img_height = Inr out_lines_block"
    and k: "0 \<le> k" "k < img_height div 2"
    and unset: "\<forall>p\<in>set (row_pixels pixels img_width (2 * k)). p + 16 \<noteq> - 1"
    by simp_all
  note bc = block_content_row[OF l k]
  note r = bc[THEN conjunct1] and ok = bc[THEN conjunct2]
  show "count_fg (out_lines_block ! (nat ((screen_height - img_height div 2) div 2) + nat k)) =
      runs (map (\<lambda>p. p + 16) (row_pixels pixels img_width (2 * k)))"
    by (simp only: r count_fg_block_row_text(1)[OF ok unset])
  assume "0 < img_width"
  from count_fg_block_row_text(2)[OF ok unset this]
  show "prefix ((if 0 < (screen_width - img_width) div 2
              then bg bg_color @ replicate (nat ((screen_width - img_width) div 2)) 32
              else []) @
             fg (hd (row_pixels pixels img_width (2 * k)) + 16))
       (out_lines_block ! (nat ((screen_height - img_height div 2) div 2) + nat k))"
    by (simp only: r lp)
qed

theorem fg_escapes_are_colour_runs_witness:
  "27 \<notin> set (ascii ''.'') \<and> 27 \<notin> set (ascii ''#'') \<and>
   img_to_term_lines Map.empty [[5, 7], [7, 7]] [[0, 0], [0, 0]] 0 [ascii ''.'', ascii ''#''] 2 2 2 2 2 =
     Inr [fg 21 @ ascii ''.'' @ fg 23 @ ascii ''.'' @ RESET, fg 23 @ ascii ''..'' @ RESET] \<and>
   row_pixels [[5, 7], [7, 7]] 2 1 = [7, 7] \<and> (7::int) + 16 \<noteq> - 1 \<and>
   count_fg (fg 23 @ ascii ''..'' @ RESET) = runs [23, 23] \<and>
   runs [23, 23] = 1 \<and>
   prefix (fg 23) (fg 23 @ ascii ''..'' @ RESET) \<and>
   img_to_term_block_lines [[5, 5], [1, 1]] 0 2 1 2 2 =
     Inr [fg 21 @ bg 17 @ half_block @ half_block @ RESET] \<and>
   row_pixels [[5, 5], [1, 1]] 2 (2 * 0) = [5, 5] \<and> (5::int) + 16 \<noteq> - 1 \<and>
   count_fg (fg 21 @ bg 17 @ half_block @ half_block @ RESET) = runs [21, 21] \<and>
   runs [21, 21] = 1"
proof -
  have gl: "\<forall>glyph\<in>set [ascii ''.'', ascii ''#'']. 27 \<notin> set glyph"
    by (simp add: ascii_def)
  have st: "\<forall>i glyph. (Map.empty :: memory) i = Some glyph \<longrightarrow> 27 \<notin> set glyph"
    by simp
  have p1: "\<forall>p\<in>set (row_pixels [[5, 7], [7, 7]] 2 1). p + 16 \<noteq> - 1"
    by (simp add: row_pixels_def)
  have p2: "\<forall>p\<in>set (row_pixels [[5, 5], [1, 1]] 2 (2 * 0)). p + 16 \<noteq> - 1"
    by (simp add: row_pixels_def)
  have y: "(0::int) \<le> 1" "(1::int) < 2" "(0::int) \<le> 0" "(0::int) < 2 div 2" by simp_all
  note a = fg_escapes_are_colour_runs[OF gl st, THEN conjunct1, THEN mp,
      OF conjI[OF example_term_runs conjI[OF y(1) conjI[OF y(2) p1]]]]
  note b = fg_escapes_are_colour_runs[OF gl st, THEN conjunct2, THEN mp,
      OF conjI[OF example_block_runs conjI[OF y(3) conjI[OF y(4) p2]]]]
  have a': "count_fg (fg 23 @ ascii ''..'' @ RESET) = runs [23, 23] \<and>
      prefix (fg 23) (fg 23 @ ascii ''..'' @ RESET)"
    using a by (simp add: row_pixels_def)
  have b': "count_fg (fg 21 @ bg 17 @ half_block @ half_block @ RESET) = runs [21, 21]"
    using b[THEN conjunct1] by (simp add: row_pixels_def)
  have r: "27 \<notin> set (ascii ''.'')" "27 \<notin> set (ascii ''#'')"
    "row_pixels [[5, 7], [7, 7]] 2 1 = [7, 7]" "(7::int) + 16 \<noteq> - 1"
    "row_pixels [[5, 5], [1, 1]] 2 (2 * 0) = [5, 5]" "(5::int) + 16 \<noteq> - 1"
    "runs [23, 23] = 1" "runs [21, 21] = 1"
    by (simp_all add: ascii_def row_pixels_def)
  note a1 = a'[THEN conjunct1] and a2 = a'[THEN conjunct2]
  show ?thesis
    by (intro conjI) (fact r example_term_runs a1 a2 example_block_runs b')+
qed

subsection \<open>The form of the escape sequences\<close>

lemma escapes_ok_plain:
  "27 \<notin> set s \<Longrightarrow> escapes_ok fgs bgs (s @ t) = escapes_ok fgs bgs t"
  by (induction s) auto

lemma escapes_ok_fg:
  assumes "c \<in> set fgs"
  shows "escapes_ok fgs bgs (fg c @ t) = escapes_ok fgs bgs t"
proof -
  have "list_ex (\<lambda>c'. prefix (fg c') (fg c @ t)) fgs"
    unfolding list_ex_iff using assms by (intro bexI[of _ c]) simp_all
  then have "escape_form fgs bgs (fg c @ t)"
    by (simp add: escape_form_def)
  moreover have "escapes_ok fgs bgs (([91, 51, 56, 59, 53, 59] @ str_int c @ [109]) @ t) =
      escapes_ok fgs bgs t"
    by (rule escapes_ok_plain) simp
  ultimately show ?thesis
    by (simp add: fg_codes)
qed

lemma escapes_ok_bg:
  assumes "c \<in> set bgs"
  shows "escapes_ok fgs bgs (bg c @ t) = escapes_ok fgs bgs t"
proof -
  have "list_ex (\<lambda>c'. prefix (bg c') (bg c @ t)) bgs"
    unfolding list_ex_iff using assms by (intro bexI[of _ c]) simp_all
  then have "escape_form fgs bgs (bg c @ t)"
    by (simp add: escape_form_def)
  moreover have "escapes_ok fgs bgs (([91, 52, 56, 59, 53, 59] @ str_int c @ [109]) @ t) =
      escapes_ok fgs bgs t"
    by (rule escapes_ok_plain) simp
  ultimately show ?thesis
    by (simp add: bg_codes)
qed

lemma escapes_ok_RESET: "escapes_ok fgs bgs RESET"
proof -
  have "escape_form fgs bgs RESET" by (simp add: escape_form_def)
  then show ?thesis by (simp add: RESET_codes)
qed

lemma escapes_ok_left_padding:
  "bg_color \<in> set bgs \<Longrightarrow>
   escapes_ok fgs bgs (left_padding bg_color padding_w @ t) = escapes_ok fgs bgs t"
  by (simp add: left_padding_def spaces_codes escapes_ok_bg escapes_ok_plain)

lemma escapes_ok_right_padding:
  "bg_color \<in> set bgs \<Longrightarrow>
   escapes_ok fgs bgs (right_padding bg_color screen_width visible_len @ t) =
   escapes_ok fgs bgs t"
  by (simp add: right_padding_def spaces_codes escapes_ok_bg escapes_ok_plain)

lemma escapes_ok_padding_line: "escapes_ok [] [bg_color] (padding_line bg_color screen_width)"
  by (simp add: padding_line_def spaces_codes escapes_ok_bg escapes_ok_plain escapes_ok_RESET)

lemma escapes_ok_cells_text:
  "\<forall>cg\<in>set cgs. fst cg \<in> set fgs \<and> 27 \<notin> set (snd cg) \<Longrightarrow>
   escapes_ok fgs bgs (cells_text cur cgs @ t) = escapes_ok fgs bgs t"
proof (induction cgs arbitrary: cur)
  case Nil
  then show ?case by simp
next
  case (Cons cg cgs)
  obtain c g where cg: "cg = (c, g)" by (cases cg) auto
  with Cons.prems have c: "c \<in> set fgs" and g: "27 \<notin> set g" by auto
  from Cons.prems have "\<forall>cg\<in>set cgs. fst cg \<in> set fgs \<and> 27 \<notin> set (snd cg)" by simp
  note ih = Cons.IH[OF this]
  show ?case
    by (cases "c = cur") (simp_all add: cg escapes_ok_fg[OF c] escapes_ok_plain[OF g] ih)
qed

lemma escapes_ok_block_cells_text:
  "\<forall>c\<in>set cs. fst c \<in> set fgs \<and> snd c \<in> set bgs \<Longrightarrow>
   escapes_ok fgs bgs (block_cells_text cur_fg cur_bg cs @ t) = escapes_ok fgs bgs t"
proof (induction cs arbitrary: cur_fg cur_bg)
  case Nil
  then show ?case by simp
next
  case (Cons c cs)
  obtain top bot where c: "c = (top, bot)" by (cases c) auto
  with Cons.prems have top: "top \<in> set fgs" and bot: "bot \<in> set bgs" by auto
  from Cons.prems have "\<forall>c\<in>set cs. fst c \<in> set fgs \<and> snd c \<in> set bgs" by simp
  note ih = Cons.IH[OF this]
  show ?case
    by (cases "top = cur_fg"; cases "bot = cur_bg")
       (simp_all add: c escapes_ok_fg[OF top] escapes_ok_bg[OF bot] half_block_codes ih)
qed


lemma escapes_ok_term_row_text:
  assumes ok: "row_ok beyond pixels pixels_gray ascii_palette ascii_palette_len img_width y"
    and glyphs: "\<forall>glyph\<in>set ascii_palette. 27 \<notin> set glyph"
    and strays: "\<forall>i glyph. beyond i = Some glyph \<longrightarrow> 27 \<notin> set glyph"
  shows "escapes_ok (map (\<lambda>p. p + 16) (row_pixels pixels img_width y)) [bg_color]
           (term_row_text beyond pixels pixels_gray bg_color ascii_palette ascii_palette_len
              screen_width img_width padding_w y)"
proof -
  let ?cgs = "map (cell_of beyond pixels pixels_gray ascii_palette ascii_palette_len y)
                (py_range img_width)"
  let ?colors = "map (\<lambda>p. p + 16) (row_pixels pixels img_width y)"
  have col: "map fst ?cgs = ?colors" by (rule term_row_colors[OF ok])
  have plain: "\<forall>cg\<in>set ?cgs. 27 \<notin> set (snd cg)"
    by (rule row_glyphs_from[OF ok glyphs strays])
  have "\<forall>cg\<in>set ?cgs. fst cg \<in> set (map fst ?cgs)" by (simp del: map_map)
  with plain col have c: "\<forall>cg\<in>set ?cgs. fst cg \<in> set ?colors \<and> 27 \<notin> set (snd cg)"
    by simp
  show ?thesis
    unfolding term_row_text_def
    by (simp only: escapes_ok_left_padding[of bg_color "[bg_color]", simplified]
        escapes_ok_cells_text[OF c]
        escapes_ok_right_padding[of bg_color "[bg_color]", simplified] escapes_ok_RESET)
qed

lemma escapes_ok_block_row_text:
  assumes ok: "block_row_ok pixels img_width y"
  shows "escapes_ok (map (\<lambda>p. p + 16) (row_pixels pixels img_width y))
           (bg_color # map (\<lambda>p. p + 16) (row_pixels pixels img_width (y + 1)))
           (block_row_text pixels bg_color screen_width img_width padding_w y)"
proof -
  let ?cs = "map (block_cell_of pixels y) (py_range img_width)"
  let ?tops = "map (\<lambda>p. p + 16) (row_pixels pixels img_width y)"
  let ?bots = "map (\<lambda>p. p + 16) (row_pixels pixels img_width (y + 1))"
  have top: "map fst ?cs = ?tops" by (rule block_row_colors[OF ok])
  have bot: "map snd ?cs = ?bots" by (rule block_row_lower_colors[OF ok])
  have "\<forall>c\<in>set ?cs. fst c \<in> set (map fst ?cs) \<and> snd c \<in> set (map snd ?cs)"
    by (simp del: map_map)
  with top bot have c: "\<forall>c\<in>set ?cs. fst c \<in> set ?tops \<and> snd c \<in> set (bg_color # ?bots)"
    by simp
  have b: "bg_color \<in> set (bg_color # ?bots)" by simp
  show ?thesis
    unfolding block_row_text_def
    by (simp only: escapes_ok_left_padding[OF b] escapes_ok_block_cells_text[OF c]
        escapes_ok_right_padding[OF b] escapes_ok_RESET)
qed

text \<open>
  Claim C8. In every entry of \<open>out_lines\<close>, wherever the character ESC stands, one of three
  sequences starts: \<open>ESC[38;5;<code>m\<close>, \<open>ESC[48;5;<code>m\<close> or \<open>ESC[0m\<close>. In a padding line
  the only code is the background colour of the call. In an image row of \<open>img_to_term\<close> the
  foreground codes are pixels of that row plus 16 and the background code is the background
  colour; in an image row of \<open>img_to_term_block\<close> the foreground codes are pixels of the
  upper row plus 16 and the background codes are pixels of the lower row plus 16 or the
  background colour. ESC is the one character 27, and the code is the decimal rendering of
  the colour: digits with an optional minus sign, whose value is the colour. The glyphs of
  the ramp contain no ESC character, and neither does a text that a read outside the ramp
  yields.
\<close>

theorem escape_sequences_have_three_forms:
  assumes "\<forall>glyph\<in>set ascii_palette. 27 \<notin> set glyph"
    and "\<forall>i glyph. beyond i = Some glyph \<longrightarrow> 27 \<notin> set glyph"
  shows
  "(img_to_term_lines beyond pixels pixels_gray bg_color ascii_palette ascii_palette_len screen_width
      screen_height img_width img_height = Inr out_lines \<longrightarrow>
    (\<forall>line\<in>set out_lines.
       escapes_ok [] [bg_color] line \<or>
       (\<exists>y. 0 \<le> y \<and> y < img_height \<and>
            escapes_ok (map (\<lambda>p. p + 16) (row_pixels pixels img_width y)) [bg_color] line))) \<and>
   (img_to_term_block_lines pixels bg_color screen_width screen_height img_width img_height
      = Inr out_lines_block \<longrightarrow>
    (\<forall>line\<in>set out_lines_block.
       escapes_ok [] [bg_color] line \<or>
       (\<exists>y. 0 \<le> y \<and> y + 1 < img_height \<and>
            escapes_ok (map (\<lambda>p. p + 16) (row_pixels pixels img_width y))
              (bg_color # map (\<lambda>p. p + 16) (row_pixels pixels img_width (y + 1))) line))) \<and>
   ESC = [27] \<and>
   fg color = ESC @ ascii ''[38;5;'' @ str_int color @ ascii ''m'' \<and>
   bg color = ESC @ ascii ''[48;5;'' @ str_int color @ ascii ''m'' \<and>
   RESET = ESC @ ascii ''[0m'' \<and>
   decimal_value (str_int color) = color \<and>
   set (str_int color) \<subseteq> insert 45 {48 .. 57}"
proof (intro conjI impI ballI)
  fix line
  assume l: "img_to_term_lines beyond pixels pixels_gray bg_color ascii_palette ascii_palette_len
      screen_width screen_height img_width img_height = Inr out_lines"
    and "line \<in> set out_lines"
  then consider "line = padding_line bg_color screen_width"
    | y where "y \<in> set (py_range img_height)"
        "line = term_row_text beyond pixels pixels_gray bg_color ascii_palette ascii_palette_len
           screen_width img_width ((screen_width - img_width) div 2) y"
    by (auto simp: img_to_term_lines_iff Let_def)
  then show "escapes_ok [] [bg_color] line \<or>
       (\<exists>y. 0 \<le> y \<and> y < img_height \<and>
            escapes_ok (map (\<lambda>p. p + 16) (row_pixels pixels img_width y)) [bg_color] line)"
  proof cases
    case 1
    then show ?thesis by (simp add: escapes_ok_padding_line)
  next
    case 2
    from l 2(1) have "row_ok beyond pixels pixels_gray ascii_palette ascii_palette_len img_width y"
      by (simp add: img_to_term_lines_iff term_ok_def)
    from escapes_ok_term_row_text[OF this assms] 2 show ?thesis
      by (auto simp: set_py_range)
  qed
next
  fix line
  assume l: "img_to_term_block_lines pixels bg_color screen_width screen_height img_width
      img_height = Inr out_lines_block"
    and "line \<in> set out_lines_block"
  then consider "line = padding_line bg_color screen_width"
    | y where "y \<in> set (range_step 0 (img_height - 1) 2)"
        "line = block_row_text pixels bg_color screen_width img_width
           ((screen_width - img_width) div 2) y"
    by (auto simp: img_to_term_block_lines_iff Let_def)
  then show "escapes_ok [] [bg_color] line \<or>
       (\<exists>y. 0 \<le> y \<and> y + 1 < img_height \<and>
            escapes_ok (map (\<lambda>p. p + 16) (row_pixels pixels img_width y))
              (bg_color # map (\<lambda>p. p + 16) (row_pixels pixels img_width (y + 1))) line)"
  proof cases
    case 1
    then show ?thesis by (simp add: escapes_ok_padding_line)
  next
    case 2
    from l 2(1) have "block_row_ok pixels img_width y"
      by (simp add: img_to_term_block_lines_iff block_ok_def)
    from escapes_ok_block_row_text[OF this] 2 block_rows_in_bounds[OF 2(1)] show ?thesis
      by blast
  qed
next
  show "set (str_int color) \<subseteq> insert 45 {48 .. 57}" by (rule str_int_range)
qed (simp_all add: ESC_def fg_def bg_def RESET_def decimal_value_str_int)

theorem escape_sequences_have_three_forms_witness:
  "27 \<notin> set (ascii ''.'') \<and> 27 \<notin> set (ascii ''#'') \<and>
   img_to_term_lines Map.empty [[0]] [[0]] 0 [ascii ''.'', ascii ''#''] 2 3 3 1 1 =
     Inr [padding_line 0 3,
          bg 0 @ ascii '' '' @ fg 16 @ ascii ''.'' @ bg 0 @ ascii '' '' @ RESET,
          padding_line 0 3] \<and>
   (escapes_ok [] [0]
      (bg 0 @ ascii '' '' @ fg 16 @ ascii ''.'' @ bg 0 @ ascii '' '' @ RESET) \<or>
    (\<exists>y. 0 \<le> y \<and> y < 1 \<and>
         escapes_ok (map (\<lambda>p. p + 16) (row_pixels [[0]] 1 y)) [0]
           (bg 0 @ ascii '' '' @ fg 16 @ ascii ''.'' @ bg 0 @ ascii '' '' @ RESET))) \<and>
   img_to_term_block_lines [[0], [1]] 0 3 3 1 2 =
     Inr [padding_line 0 3,
          bg 0 @ ascii '' '' @ fg 16 @ bg 17 @ half_block @ bg 0 @ ascii '' '' @ RESET,
          padding_line 0 3] \<and>
   (escapes_ok [] [0]
      (bg 0 @ ascii '' '' @ fg 16 @ bg 17 @ half_block @ bg 0 @ ascii '' '' @ RESET) \<or>
    (\<exists>y. 0 \<le> y \<and> y + 1 < 2 \<and>
         escapes_ok (map (\<lambda>p. p + 16) (row_pixels [[0], [1]] 1 y))
           (0 # map (\<lambda>p. p + 16) (row_pixels [[0], [1]] 1 (y + 1)))
           (bg 0 @ ascii '' '' @ fg 16 @ bg 17 @ half_block @ bg 0 @ ascii '' '' @ RESET)))"
proof -
  have gl: "\<forall>glyph\<in>set [ascii ''.'', ascii ''#'']. 27 \<notin> set glyph"
    by (simp add: ascii_def)
  have st: "\<forall>i glyph. (Map.empty :: memory) i = Some glyph \<longrightarrow> 27 \<notin> set glyph"
    by simp
  have g1: "27 \<notin> set (ascii ''.'')" and g2: "27 \<notin> set (ascii ''#'')"
    by (simp_all add: ascii_def)
  note a = escape_sequences_have_three_forms[OF gl st, THEN conjunct1, THEN mp,
      OF example_term_lines, THEN bspec,
      of "bg 0 @ ascii '' '' @ fg 16 @ ascii ''.'' @ bg 0 @ ascii '' '' @ RESET"]
  note b = escape_sequences_have_three_forms[OF gl st, THEN conjunct2, THEN conjunct1, THEN mp,
      OF example_block_lines, THEN bspec,
      of "bg 0 @ ascii '' '' @ fg 16 @ bg 17 @ half_block @ bg 0 @ ascii '' '' @ RESET"]
  have a': "escapes_ok [] [0]
      (bg 0 @ ascii '' '' @ fg 16 @ ascii ''.'' @ bg 0 @ ascii '' '' @ RESET) \<or>
    (\<exists>y. 0 \<le> y \<and> y < 1 \<and>
         escapes_ok (map (\<lambda>p. p + 16) (row_pixels [[0]] 1 y)) [0]
           (bg 0 @ ascii '' '' @ fg 16 @ ascii ''.'' @ bg 0 @ ascii '' '' @ RESET))"
    by (rule a) simp
  have b': "escapes_ok [] [0]
      (bg 0 @ ascii '' '' @ fg 16 @ bg 17 @ half_block @ bg 0 @ ascii '' '' @ RESET) \<or>
    (\<exists>y. 0 \<le> y \<and> y + 1 < 2 \<and>
         escapes_ok (map (\<lambda>p. p + 16) (row_pixels [[0], [1]] 1 y))
           (0 # map (\<lambda>p. p + 16) (row_pixels [[0], [1]] 1 (y + 1)))
           (bg 0 @ ascii '' '' @ fg 16 @ bg 17 @ half_block @ bg 0 @ ascii '' '' @ RESET))"
    by (rule b) simp
  show ?thesis
    by (intro conjI) (fact g1 g2 example_term_lines a' example_block_lines b')+
qed

subsection \<open>The number of lines of the returned text\<close>

lemma split_on_not_empty: "split_on sep s \<noteq> []"
  by (induction s) (auto split: list.splits)




lemma fg_no_newline [simp]: "10 \<notin> set (fg c)"
  by (simp add: fg_codes)

lemma bg_no_newline [simp]: "10 \<notin> set (bg c)"
  by (simp add: bg_codes)

lemma RESET_no_newline [simp]: "10 \<notin> set RESET"
  by (simp add: RESET_codes)

lemma left_padding_no_newline [simp]: "10 \<notin> set (left_padding bg_color padding_w)"
  by (simp add: left_padding_def spaces_codes)

lemma right_padding_no_newline [simp]:
  "10 \<notin> set (right_padding bg_color screen_width visible_len)"
  by (simp add: right_padding_def spaces_codes)







lemma ramp_index_in_range:
  assumes "0 \<le> gray_val" "gray_val \<le> 254" "1 \<le> ascii_palette_len"
    "ascii_palette_len \<le> 8421504"
  shows "0 \<le> ramp_index gray_val ascii_palette_len \<and>
         ramp_index gray_val ascii_palette_len < ascii_palette_len"
proof -
  have "gray_val * ascii_palette_len \<le> 254 * ascii_palette_len"
    using assms by (intro mult_right_mono) auto
  then have "gray_val * ascii_palette_len < 255 * ascii_palette_len" using assms by simp
  then have "(gray_val * ascii_palette_len) div 255 < ascii_palette_len"
    by (simp add: div_less_iff_less_mult mult.commute)
  moreover have "0 \<le> gray_val * ascii_palette_len" using assms by simp
  moreover have "ramp_index gray_val ascii_palette_len = (gray_val * ascii_palette_len) div 255"
    using assms by (intro ramp_index_exact) simp_all
  ultimately show ?thesis by simp
qed








end
